theory Spec2Isabelle
  imports Complex_Main "HOL-Library.Word"
begin

section \<open>Numbers\<close>

text \<open>
  A JavaScript number is modelled as a real number or one of the three special values
  of IEEE arithmetic. Arithmetic on the finite values is exact and unbounded: rounding,
  overflow and the sign of zero are not modelled, except at the two places where the
  rounding decides what the program does, the tangent at the multiples of \<open>\<pi>/2\<close>
  (\<open>tan_double\<close>) and the increment of a loop counter (\<open>rounded\<close>). The special
  values are kept because the program divides (\<open>rx / ry\<close>, the colour channels over
  the interpolated alpha) and the quotient by zero is an ordinary value in JavaScript,
  never an exception.
\<close>

datatype jsnum = Num real | PInf | NInf | NaN

instantiation jsnum :: "{plus, minus, uminus, times, divide, ord}"
begin

fun plus_jsnum :: "jsnum \<Rightarrow> jsnum \<Rightarrow> jsnum" where
  "plus_jsnum (Num a) (Num b) = Num (a + b)"
| "plus_jsnum NaN _ = NaN"
| "plus_jsnum _ NaN = NaN"
| "plus_jsnum PInf NInf = NaN"
| "plus_jsnum NInf PInf = NaN"
| "plus_jsnum PInf _ = PInf"
| "plus_jsnum _ PInf = PInf"
| "plus_jsnum NInf _ = NInf"
| "plus_jsnum _ NInf = NInf"

fun uminus_jsnum :: "jsnum \<Rightarrow> jsnum" where
  "uminus_jsnum (Num a) = Num (- a)"
| "uminus_jsnum PInf = NInf"
| "uminus_jsnum NInf = PInf"
| "uminus_jsnum NaN = NaN"

definition minus_jsnum :: "jsnum \<Rightarrow> jsnum \<Rightarrow> jsnum" where
  "minus_jsnum a b = a + (- b)"

fun times_jsnum :: "jsnum \<Rightarrow> jsnum \<Rightarrow> jsnum" where
  "times_jsnum (Num a) (Num b) = Num (a * b)"
| "times_jsnum NaN _ = NaN"
| "times_jsnum _ NaN = NaN"
| "times_jsnum (Num a) PInf = (if a = 0 then NaN else if 0 < a then PInf else NInf)"
| "times_jsnum (Num a) NInf = (if a = 0 then NaN else if 0 < a then NInf else PInf)"
| "times_jsnum PInf (Num b) = (if b = 0 then NaN else if 0 < b then PInf else NInf)"
| "times_jsnum NInf (Num b) = (if b = 0 then NaN else if 0 < b then NInf else PInf)"
| "times_jsnum PInf PInf = PInf"
| "times_jsnum PInf NInf = NInf"
| "times_jsnum NInf PInf = NInf"
| "times_jsnum NInf NInf = PInf"

fun divide_jsnum :: "jsnum \<Rightarrow> jsnum \<Rightarrow> jsnum" where
  "divide_jsnum (Num a) (Num b) =
     (if b \<noteq> 0 then Num (a / b)
      else if a = 0 then NaN else if 0 < a then PInf else NInf)"
| "divide_jsnum NaN _ = NaN"
| "divide_jsnum _ NaN = NaN"
| "divide_jsnum (Num a) PInf = Num 0"
| "divide_jsnum (Num a) NInf = Num 0"
| "divide_jsnum PInf (Num b) = (if 0 \<le> b then PInf else NInf)"
| "divide_jsnum NInf (Num b) = (if 0 \<le> b then NInf else PInf)"
| "divide_jsnum PInf PInf = NaN"
| "divide_jsnum PInf NInf = NaN"
| "divide_jsnum NInf PInf = NaN"
| "divide_jsnum NInf NInf = NaN"

fun less_jsnum :: "jsnum \<Rightarrow> jsnum \<Rightarrow> bool" where
  "less_jsnum (Num a) (Num b) = (a < b)"
| "less_jsnum NaN _ = False"
| "less_jsnum _ NaN = False"
| "less_jsnum _ NInf = False"
| "less_jsnum PInf _ = False"
| "less_jsnum NInf _ = True"
| "less_jsnum _ PInf = True"

fun less_eq_jsnum :: "jsnum \<Rightarrow> jsnum \<Rightarrow> bool" where
  "less_eq_jsnum (Num a) (Num b) = (a \<le> b)"
| "less_eq_jsnum NaN _ = False"
| "less_eq_jsnum _ NaN = False"
| "less_eq_jsnum NInf _ = True"
| "less_eq_jsnum _ PInf = True"
| "less_eq_jsnum _ NInf = False"
| "less_eq_jsnum PInf _ = False"

instance ..

end

instantiation jsnum :: inverse
begin

definition inverse_jsnum :: "jsnum \<Rightarrow> jsnum" where
  "inverse_jsnum a = divide (Num 1) a"

instance ..

end

text \<open>\<open>a === b\<close> on numbers: \<open>NaN\<close> is equal to nothing, itself included.\<close>

definition strict_eq :: "jsnum \<Rightarrow> jsnum \<Rightarrow> bool" where
  "strict_eq a b = (a \<noteq> NaN \<and> a = b)"

text \<open>\<open>a % b\<close>: the remainder of the division truncated towards zero.\<close>

definition trunc :: "real \<Rightarrow> int" where
  "trunc v = (if 0 \<le> v then \<lfloor>v\<rfloor> else \<lceil>v\<rceil>)"

fun remainder :: "jsnum \<Rightarrow> jsnum \<Rightarrow> jsnum" where
  "remainder (Num a) (Num b) =
     (if b = 0 then NaN else Num (a - b * of_int (trunc (a / b))))"
| "remainder (Num a) PInf = Num a"
| "remainder (Num a) NInf = Num a"
| "remainder _ _ = NaN"

fun Math_floor :: "jsnum \<Rightarrow> jsnum" where
  "Math_floor (Num a) = Num (of_int \<lfloor>a\<rfloor>)"
| "Math_floor v = v"

fun Math_ceil :: "jsnum \<Rightarrow> jsnum" where
  "Math_ceil (Num a) = Num (of_int \<lceil>a\<rceil>)"
| "Math_ceil v = v"

fun Math_abs :: "jsnum \<Rightarrow> jsnum" where
  "Math_abs (Num a) = Num \<bar>a\<bar>"
| "Math_abs PInf = PInf"
| "Math_abs NInf = PInf"
| "Math_abs NaN = NaN"

fun Math_sign :: "jsnum \<Rightarrow> jsnum" where
  "Math_sign (Num a) = Num (sgn a)"
| "Math_sign PInf = Num 1"
| "Math_sign NInf = Num (- 1)"
| "Math_sign NaN = NaN"

fun Math_min :: "jsnum \<Rightarrow> jsnum \<Rightarrow> jsnum" where
  "Math_min (Num a) (Num b) = Num (min a b)"
| "Math_min NaN _ = NaN"
| "Math_min _ NaN = NaN"
| "Math_min NInf _ = NInf"
| "Math_min _ NInf = NInf"
| "Math_min PInf v = v"
| "Math_min v PInf = v"

fun Math_max :: "jsnum \<Rightarrow> jsnum \<Rightarrow> jsnum" where
  "Math_max (Num a) (Num b) = Num (max a b)"
| "Math_max NaN _ = NaN"
| "Math_max _ NaN = NaN"
| "Math_max PInf _ = PInf"
| "Math_max _ PInf = PInf"
| "Math_max NInf v = v"
| "Math_max v NInf = v"

fun Math_sqrt :: "jsnum \<Rightarrow> jsnum" where
  "Math_sqrt (Num a) = (if a < 0 then NaN else Num (sqrt a))"
| "Math_sqrt PInf = PInf"
| "Math_sqrt v = NaN"

fun Math_cos :: "jsnum \<Rightarrow> jsnum" where
  "Math_cos (Num a) = Num (cos a)"
| "Math_cos v = NaN"

fun Math_sin :: "jsnum \<Rightarrow> jsnum" where
  "Math_sin (Num a) = Num (sin a)"
| "Math_sin v = NaN"

text \<open>
  \<open>Math.tan\<close>. Away from the multiples of \<open>\<pi>/2\<close> it is the real tangent. At a
  multiple of \<open>\<pi>/2\<close> the program's argument is the double nearest to it, which lies
  on the side of zero (\<open>Math.PI\<close> is less than \<open>\<pi>\<close>), so that the result is neither
  a pole nor a zero: \<open>Math.tan(Math.PI / 2)\<close> is \<open>16331239353195370\<close> and
  \<open>Math.tan(Math.PI)\<close> is \<open>-1.2246467991473532e-16\<close>, with the opposite signs at the
  negative arguments. These are the values at \<open>\<plusminus>\<pi>/2\<close> and \<open>\<plusminus>\<pi>\<close>; the one caller,
  \<open>slideEllipse\<close>, passes an argument in \<open>[-\<pi>, \<pi>)\<close>, and the same values stand
  for the further multiples. \<open>Math.tan(0)\<close> is \<open>0\<close>.
\<close>

definition tan_half_pi :: real where
  "tan_half_pi = 16331239353195370"

definition tan_pi :: real where
  "tan_pi = - (12246467991473532 / 10 ^ 32)"

definition tan_double :: "real \<Rightarrow> real" where
  "tan_double a =
     (if cos a = 0 then (if 0 < a then tan_half_pi else - tan_half_pi)
      else if sin a = 0 \<and> a \<noteq> 0 then (if 0 < a then tan_pi else - tan_pi)
      else tan a)"

fun Math_tan :: "jsnum \<Rightarrow> jsnum" where
  "Math_tan (Num a) = Num (tan_double a)"
| "Math_tan v = NaN"

fun Math_atan :: "jsnum \<Rightarrow> jsnum" where
  "Math_atan (Num a) = Num (arctan a)"
| "Math_atan PInf = Num (pi / 2)"
| "Math_atan NInf = Num (- (pi / 2))"
| "Math_atan NaN = NaN"

definition Math_PI :: jsnum where
  "Math_PI = Num pi"

text \<open>
  The loop counters of the program hold integers, and \<open>x++\<close> adds \<open>1\<close> as a double
  does: the sum is rounded to the nearest double, a tie to the one with the even
  significand. The doubles are the integers up to \<open>2\<^sup>5\<^sup>3\<close> in magnitude and are
  spaced by \<open>2\<close>, \<open>4\<close>, \<open>8\<close>, ... in the binades beyond, so that from \<open>2\<^sup>5\<^sup>3\<close> on
  the increment is absorbed. \<open>spacing m\<close> is the distance between the doubles at the
  magnitude \<open>m\<close>, \<open>to_double n\<close> the double nearest to the integer \<open>n\<close>, and
  \<open>rounded\<close> applies it to a number that holds an integer.
\<close>

function spacing :: "nat \<Rightarrow> nat" where
  "spacing m = (if m < 2 ^ 53 then 1 else 2 * spacing (m div 2))"
  by pat_completeness auto
termination
  by (relation "measure id") auto

declare spacing.simps [simp del]

definition round_even :: "int \<Rightarrow> int \<Rightarrow> int" where
  "round_even n d =
     (let q = n div d; r = n mod d
      in if 2 * r < d then q * d
         else if d < 2 * r then (q + 1) * d
         else if even q then q * d else (q + 1) * d)"

definition to_double :: "int \<Rightarrow> int" where
  "to_double n = round_even n (int (spacing (nat \<bar>n\<bar>)))"

fun rounded :: "jsnum \<Rightarrow> jsnum" where
  "rounded (Num a) = (if a = of_int \<lfloor>a\<rfloor> then Num (of_int (to_double \<lfloor>a\<rfloor>)) else Num a)"
| "rounded v = v"

section \<open>Scalar helpers\<close>

text \<open>\<open>lerp(t, a, b)\<close>\<close>

definition lerp :: "jsnum \<Rightarrow> jsnum \<Rightarrow> jsnum \<Rightarrow> jsnum" where
  "lerp t a b = (Num 1 - t) * a + t * b"

text \<open>\<open>clamp(t, a, b)\<close>: swapped bounds are corrected first.\<close>

definition clamp :: "jsnum \<Rightarrow> jsnum \<Rightarrow> jsnum \<Rightarrow> jsnum" where
  "clamp t a b =
     (let (a', b') = (if a > b then (b, a) else (a, b))
      in Math_max (Math_min t b') a')"

text \<open>\<open>clamp(t)\<close>, with the default bounds \<open>a = 0\<close> and \<open>b = 1\<close>.\<close>

definition clamp01 :: "jsnum \<Rightarrow> jsnum" where
  "clamp01 t = clamp t (Num 0) (Num 1)"

datatype js_error = TypeError | RangeError

section \<open>Point samples and strokes\<close>

text \<open>
  The value of a property of a point: a number, or \<open>undefined\<close>, which the type
  \<open>x?: number\<close> admits as the value of a property that the object does have.
  \<open>ToNumber\<close> is the conversion that arithmetic and the comparisons \<open><\<close>, \<open>>\<close> apply
  to an operand; \<open>strict_equals\<close> is \<open>===\<close>, which converts nothing.
\<close>

datatype jsval = Undefined | Number jsnum

fun ToNumber :: "jsval \<Rightarrow> jsnum" where
  "ToNumber Undefined = NaN"
| "ToNumber (Number v) = v"

fun strict_equals :: "jsval \<Rightarrow> jsval \<Rightarrow> bool" where
  "strict_equals Undefined Undefined = True"
| "strict_equals (Number a) (Number b) = strict_eq a b"
| "strict_equals _ _ = False"

text \<open>
  \<open>bezier(t, values)\<close>. A single value is returned as it is. On the empty array
  neither branch ends the recursion (\<open>[].slice(0, -1)\<close> and \<open>[].slice(1)\<close> are empty
  again), so the call exhausts the stack and throws a \<open>RangeError\<close>.
\<close>

function bezier :: "jsnum \<Rightarrow> jsval list \<Rightarrow> js_error + jsval" where
  "bezier t values =
     (if length values = 1 then Inr (values ! 0)
      else if values = [] then Inl RangeError
      else (case bezier t (butlast values) of
              Inl e \<Rightarrow> Inl e
            | Inr l \<Rightarrow> (case bezier t (tl values) of
                         Inl e \<Rightarrow> Inl e
                       | Inr r \<Rightarrow> Inr (Number (lerp t (ToNumber l) (ToNumber r))))))"
  by pat_completeness auto
termination
  by (relation "measure (\<lambda>(t, values). length values)") auto

declare bezier.simps [simp del]

text \<open>
  A \<open>LinePointPartial\<close> is an object with the optional properties
  \<open>x, y, r, g, b, a, w\<close>: a map from the property names to the values of the object's
  own properties, \<open>None\<close> where the object has no such property. A \<open>LinePoint\<close> has
  all seven.
\<close>

datatype field = Fx | Fy | Fr | Fg | Fb | Fa | Fw

type_synonym LinePointPartial = "field \<rightharpoonup> jsval"

type_synonym LinePoint = "field \<Rightarrow> jsval"

text \<open>
  \<open>Object.assign(target, source)\<close>: every own property of the source is copied over
  the target's, one that holds \<open>undefined\<close> too. Every evaluator below returns an
  object that nothing else refers to (the empty stroke creates one per call, the others
  return a fresh object or the one their parent's call returned), so the in-place
  updates of \<open>transform\<close> and \<open>matrix\<close> are modelled by the value of the updated
  object.
\<close>

definition Object_assign :: "LinePointPartial \<Rightarrow> LinePointPartial \<Rightarrow> LinePointPartial" where
  "Object_assign target source =
     (\<lambda>k. case source k of Some v \<Rightarrow> Some v | None \<Rightarrow> target k)"

text \<open>
  \<open>Object.keys(p)\<close>: the names of the own properties, whatever they hold; the order
  of the keys has no effect on any result.
\<close>

definition Object_keys :: "LinePointPartial \<Rightarrow> field list" where
  "Object_keys p = filter (\<lambda>k. p k \<noteq> None) [Fx, Fy, Fr, Fg, Fb, Fa, Fw]"

text \<open>\<open>p[prop]\<close> and \<open>p.x\<close>: the value of the property, \<open>undefined\<close> when there is none.\<close>

definition prop_of :: "LinePointPartial \<Rightarrow> field \<Rightarrow> jsval" where
  "prop_of p prop = (case p prop of Some v \<Rightarrow> v | None \<Rightarrow> Undefined)"

text \<open>
  A stroke holds its evaluator; \<open>create\<close> is \<open>Stroke._create\<close>. An evaluator
  returns a sample or throws.
\<close>

datatype Stroke = create (evaluator: "jsnum \<Rightarrow> js_error + LinePointPartial")

definition Stroke_new :: Stroke where
  "Stroke_new = create (\<lambda>t. Inr Map.empty)"

definition evaluate :: "Stroke \<Rightarrow> jsnum \<Rightarrow> js_error + LinePointPartial" where
  "evaluate this t = evaluator this t"

text \<open>
  \<open>strokes[index]\<close>: an element when the index is an integer within the array,
  \<open>undefined\<close> (here \<open>None\<close>) otherwise.
\<close>

fun array_get :: "'a list \<Rightarrow> jsnum \<Rightarrow> 'a option" where
  "array_get xs (Num i) =
     (if i = of_int \<lfloor>i\<rfloor> \<and> 0 \<le> i \<and> i < real (length xs)
      then Some (xs ! nat \<lfloor>i\<rfloor>) else None)"
| "array_get xs v = None"

text \<open>\<open>Stroke.sequence\<close>: reading \<open>_evaluator\<close> of \<open>undefined\<close> throws a \<open>TypeError\<close>.\<close>

definition sequence :: "Stroke list \<Rightarrow> Stroke" where
  "sequence strokes = create (\<lambda>t.
     let t' = t * Num (real (length strokes));
         index = clamp (Math_floor t') (Num 0) (Num (real (length strokes)) - Num 1)
     in case array_get strokes index of
          None \<Rightarrow> Inl TypeError
        | Some s \<Rightarrow> evaluator s (t' - index))"

definition Stroke_parametric :: "Stroke \<Rightarrow> (jsnum \<Rightarrow> LinePointPartial) \<Rightarrow> Stroke" where
  "Stroke_parametric this f = create (\<lambda>t.
     case evaluator this t of
       Inl e \<Rightarrow> Inl e
     | Inr p \<Rightarrow> Inr (Object_assign p (f t)))"

definition transform :: "Stroke \<Rightarrow> (LinePointPartial \<Rightarrow> LinePointPartial) \<Rightarrow> Stroke" where
  "transform this f = create (\<lambda>t.
     case evaluator this t of
       Inl e \<Rightarrow> Inl e
     | Inr point \<Rightarrow> Inr (Object_assign point (f (Object_assign Map.empty point))))"

definition slide :: "Stroke \<Rightarrow> (jsnum \<Rightarrow> jsnum) \<Rightarrow> Stroke" where
  "slide this f = create (\<lambda>t. evaluator this (f t))"

definition cut :: "Stroke \<Rightarrow> jsnum \<Rightarrow> jsnum \<Rightarrow> Stroke" where
  "cut this t0 t1 = slide this (\<lambda>t. t * (t1 - t0) + t0)"

definition Stroke_fix :: "Stroke \<Rightarrow> LinePointPartial \<Rightarrow> Stroke" where
  "Stroke_fix this point = create (\<lambda>t.
     case evaluator this t of
       Inl e \<Rightarrow> Inl e
     | Inr p \<Rightarrow> Inr (Object_assign p point))"

text \<open>The loop \<open>for (const prop of props) result[prop] = bezier(t, ...)\<close>.\<close>

fun bezier_props ::
  "jsnum \<Rightarrow> LinePointPartial list \<Rightarrow> field list \<Rightarrow> LinePointPartial \<Rightarrow> js_error + LinePointPartial"
where
  "bezier_props t points [] result = Inr result"
| "bezier_props t points (prop # props) result =
     (case bezier t (map (\<lambda>p. prop_of p prop) points) of
        Inl e \<Rightarrow> Inl e
      | Inr v \<Rightarrow> bezier_props t points props (result(prop \<mapsto> v)))"

text \<open>
  \<open>Stroke.bezier\<close>. With no point at all \<open>propsList[0]\<close> is \<open>undefined\<close> and the
  call itself throws a \<open>TypeError\<close>, before any stroke is created.
\<close>

definition Stroke_bezier :: "Stroke \<Rightarrow> LinePointPartial list \<Rightarrow> js_error + Stroke" where
  "Stroke_bezier this points =
     (let propsList = map (\<lambda>p. set (Object_keys p)) points
      in case propsList of
           [] \<Rightarrow> Inl TypeError
         | first # _ \<Rightarrow>
             let props = filter (\<lambda>p. list_all (\<lambda>s. p \<in> s) propsList) (Object_keys (hd points))
             in Inr (create (\<lambda>t.
                  case bezier_props t points props Map.empty of
                    Inl e \<Rightarrow> Inl e
                  | Inr result \<Rightarrow>
                      (case evaluator this t of
                         Inl e \<Rightarrow> Inl e
                       | Inr p \<Rightarrow> Inr (Object_assign p result)))))"

definition line :: "Stroke \<Rightarrow> LinePointPartial \<Rightarrow> LinePointPartial \<Rightarrow> js_error + Stroke" where
  "line this start end = Stroke_bezier this [start, end]"

text \<open>
  \<open>slideEllipse(ratio)\<close>. The first statement of the returned function,
  \<open>t = (t % 1 + 1.5) % 1 - 0.5\<close>, is \<open>slideEllipse_t\<close>.
\<close>

definition slideEllipse_t :: "jsnum \<Rightarrow> jsnum" where
  "slideEllipse_t t = remainder (remainder t (Num 1) + Num 1.5) (Num 1) - Num 0.5"

definition slideEllipse :: "jsnum \<Rightarrow> jsnum \<Rightarrow> jsnum" where
  "slideEllipse ratio t =
     (let t = slideEllipse_t t;
          offset = (if Math_abs t > Num 0.25 then Num 0.5 * Math_sign t else Num 0)
      in Math_atan (Math_tan (t * Num 2 * Math_PI) * ratio) / (Num 2 * Math_PI) + offset)"

datatype ellipse_form = Parametric | Polar | Tangent

definition ellipse ::
  "Stroke \<Rightarrow> jsnum \<Rightarrow> jsnum \<Rightarrow> jsnum \<Rightarrow> jsnum \<Rightarrow> jsnum \<Rightarrow> bool \<Rightarrow> ellipse_form \<Rightarrow> Stroke"
where
  "ellipse this x y rx ry start ccw form =
     (let result = Stroke_parametric this (\<lambda>t.
            [Fx \<mapsto> Number (x + rx * Math_cos ((if ccw then - t else t) * Num 2 * Math_PI)),
             Fy \<mapsto> Number (y + ry * Math_sin ((if ccw then - t else t) * Num 2 * Math_PI))]);
          result = (case form of
                      Parametric \<Rightarrow> result
                    | Polar \<Rightarrow> slide result (slideEllipse (rx / ry))
                    | Tangent \<Rightarrow> slide result (slideEllipse (ry / rx)))
      in slide result (\<lambda>t. t + start / (Num 2 * Math_PI)))"

text \<open>\<open>circle\<close>, with the defaults of \<open>ellipse\<close> for the form.\<close>

definition circle :: "Stroke \<Rightarrow> jsnum \<Rightarrow> jsnum \<Rightarrow> jsnum \<Rightarrow> jsnum \<Rightarrow> bool \<Rightarrow> Stroke" where
  "circle this x y r start ccw = ellipse this x y r r start ccw Parametric"

text \<open>
  \<open>Stroke.matrix\<close>: \<open>point.x === undefined\<close> holds of a missing property and of one
  that holds \<open>undefined\<close>.
\<close>

definition matrix ::
  "Stroke \<Rightarrow> jsnum \<Rightarrow> jsnum \<Rightarrow> jsnum \<Rightarrow> jsnum \<Rightarrow> jsnum \<Rightarrow> jsnum \<Rightarrow> Stroke"
where
  "matrix this a b c d e f = create (\<lambda>t.
     case evaluator this t of
       Inl err \<Rightarrow> Inl err
     | Inr point \<Rightarrow>
         (case (prop_of point Fx, prop_of point Fy) of
            (Number px, Number py) \<Rightarrow>
              Inr (Object_assign point
                     [Fx \<mapsto> Number (a * px + c * py + e), Fy \<mapsto> Number (b * px + d * py + f)])
          | _ \<Rightarrow> Inr point))"

definition translate :: "Stroke \<Rightarrow> jsnum \<Rightarrow> jsnum \<Rightarrow> Stroke" where
  "translate this x y = matrix this (Num 1) (Num 0) (Num 0) (Num 1) x y"

text \<open>\<open>scale(sx, sy, x, y)\<close>; the two-argument overload passes \<open>x = 0\<close>, \<open>y = 0\<close>.\<close>

definition scale :: "Stroke \<Rightarrow> jsnum \<Rightarrow> jsnum \<Rightarrow> jsnum \<Rightarrow> jsnum \<Rightarrow> Stroke" where
  "scale this sx sy x y = matrix this sx (Num 0) (Num 0) sy (x - sx * x) (y - sy * y)"

text \<open>\<open>rotate(angle, x, y)\<close>; the one-argument overload passes \<open>x = 0\<close>, \<open>y = 0\<close>.\<close>

definition Stroke_rotate :: "Stroke \<Rightarrow> jsnum \<Rightarrow> jsnum \<Rightarrow> jsnum \<Rightarrow> Stroke" where
  "Stroke_rotate this angle x y =
     matrix this (Math_cos angle) (Math_sin angle) (- Math_sin angle) (Math_cos angle)
       (- Math_cos angle * x + Math_sin angle * y + x)
       (- Math_sin angle * x + - Math_cos angle * y + y)"

section \<open>The pixel buffer\<close>

text \<open>
  An \<open>ImageData\<close>: its \<open>data\<close> is a \<open>Uint8ClampedArray\<close> of \<open>4\<cdot>width\<cdot>height\<close>
  bytes. Storing a number converts it with \<open>ToUint8Clamp\<close>: \<open>NaN\<close> becomes \<open>0\<close>, the
  value is clamped to \<open>[0, 255]\<close> and rounded to the nearest integer, a tie to the even
  one.
\<close>

record ImageData =
  width :: nat
  height :: nat
  data :: "8 word list"

fun ToUint8Clamp :: "jsnum \<Rightarrow> 8 word" where
  "ToUint8Clamp (Num v) =
     (let c = min (max v 0) 255; f = \<lfloor>c\<rfloor>
      in word_of_int
           (if c < of_int f + 1 / 2 then f
            else if of_int f + 1 / 2 < c then f + 1
            else if even f then f else f + 1))"
| "ToUint8Clamp PInf = 255"
| "ToUint8Clamp NInf = 0"
| "ToUint8Clamp NaN = 0"

text \<open>
  \<open>array[i]\<close> read as a number: outside the array, or at an index that is not an
  integer, the element is \<open>undefined\<close>, which is \<open>NaN\<close> in arithmetic.
\<close>

fun typed_get :: "8 word list \<Rightarrow> jsnum \<Rightarrow> jsnum" where
  "typed_get xs (Num i) =
     (if i = of_int \<lfloor>i\<rfloor> \<and> 0 \<le> i \<and> i < real (length xs)
      then Num (real (unat (xs ! nat \<lfloor>i\<rfloor>))) else NaN)"
| "typed_get xs v = NaN"

text \<open>\<open>array[i] = v\<close>: a store at an index that is not an element's is ignored.\<close>

fun typed_set :: "8 word list \<Rightarrow> jsnum \<Rightarrow> jsnum \<Rightarrow> 8 word list" where
  "typed_set xs (Num i) v =
     (if i = of_int \<lfloor>i\<rfloor> \<and> 0 \<le> i \<and> i < real (length xs)
      then xs[nat \<lfloor>i\<rfloor> := ToUint8Clamp v] else xs)"
| "typed_set xs j v = xs"

section \<open>The rasterizer\<close>

text \<open>\<open>drawPixel\<close>\<close>

definition drawPixel ::
  "ImageData \<Rightarrow> jsnum \<Rightarrow> jsnum \<Rightarrow> jsnum \<Rightarrow> jsnum \<Rightarrow> jsnum \<Rightarrow> jsnum \<Rightarrow> jsnum \<Rightarrow> ImageData"
where
  "drawPixel img x y r g b a blend =
     (if x < Num 0 \<or> x \<ge> Num (real (width img)) \<or> y < Num 0 \<or> y \<ge> Num (real (height img))
      then img
      else
        let r = Math_floor (clamp01 r * Num 255);
            g = Math_floor (clamp01 g * Num 255);
            b = Math_floor (clamp01 b * Num 255);
            a = clamp01 a;
            i = (y * Num (real (width img)) + x) * Num 4;
            oldA = typed_get (data img) (i + Num 3) / Num 255
        in if blend \<ge> oldA then
             (let a = Math_floor (a * blend * Num 255);
                  d = typed_set (data img) (i + Num 0) r;
                  d = typed_set d (i + Num 1) g;
                  d = typed_set d (i + Num 2) b;
                  d = typed_set d (i + Num 3) a
              in img\<lparr>data := d\<rparr>)
           else if strict_eq oldA (Num 1) then
             (let a = lerp blend oldA a;
                  d = data img;
                  d = typed_set d (i + Num 0) (lerp blend (typed_get d (i + Num 0)) (r * a) / a);
                  d = typed_set d (i + Num 1) (lerp blend (typed_get d (i + Num 1)) (g * a) / a);
                  d = typed_set d (i + Num 2) (lerp blend (typed_get d (i + Num 2)) (b * a) / a);
                  a = Math_floor (a * Num 255);
                  d = typed_set d (i + Num 3) a
              in img\<lparr>data := d\<rparr>)
           else img)"

text \<open>\<open>v ** 2\<close>\<close>

definition sq :: "jsnum \<Rightarrow> jsnum" where
  "sq v = v * v"

text \<open>
  The projection parameter of \<open>drawLinePixel\<close>: the closest point on the line to the
  pixel, overridden to \<open>0\<close> when \<open>dx === 0\<close>.
\<close>

definition projection :: "LinePoint \<Rightarrow> LinePoint \<Rightarrow> jsnum \<Rightarrow> jsnum \<Rightarrow> jsnum" where
  "projection start end x y =
     (let dx = ToNumber (end Fx) - ToNumber (start Fx);
          dy = ToNumber (end Fy) - ToNumber (start Fy);
          dxPx = x - ToNumber (start Fx);
          dyPx = y - ToNumber (start Fy);
          t = (dx * dxPx + dy * dyPx) / (sq dx + sq dy)
      in if strict_eq dx (Num 0) then Num 0 else t)"

text \<open>The strength of the pixel, from the clamped parameter.\<close>

definition coverage :: "LinePoint \<Rightarrow> LinePoint \<Rightarrow> jsnum \<Rightarrow> jsnum \<Rightarrow> jsnum \<Rightarrow> jsnum" where
  "coverage start end x y t =
     (let tx = lerp t (ToNumber (start Fx)) (ToNumber (end Fx));
          ty = lerp t (ToNumber (start Fy)) (ToNumber (end Fy));
          tw = Math_max (lerp t (ToNumber (start Fw)) (ToNumber (end Fw))) (Num 0);
          d = Math_sqrt (sq (x - tx) + sq (y - ty))
      in clamp01 ((Math_max tw (Num 1) * Num 0.5 + Num 0.5 - d) * Math_min tw (Num 1)))"

text \<open>\<open>drawLinePixel\<close>: the image, and whether the pixel is within the stroke.\<close>

definition drawLinePixel ::
  "ImageData \<Rightarrow> jsnum \<Rightarrow> jsnum \<Rightarrow> LinePoint \<Rightarrow> LinePoint \<Rightarrow> bool \<Rightarrow> bool \<Rightarrow> ImageData \<times> bool"
where
  "drawLinePixel img x y start end steep reverse =
     (let t = projection start end x y;
          isStartCap = t < Num 0;
          t = clamp01 t;
          ta = lerp t (ToNumber (start Fa)) (ToNumber (end Fa));
          tr = lerp t (ToNumber (start Fr) * ToNumber (start Fa))
                      (ToNumber (end Fr) * ToNumber (end Fa)) / ta;
          tg = lerp t (ToNumber (start Fg) * ToNumber (start Fa))
                      (ToNumber (end Fg) * ToNumber (end Fa)) / ta;
          tb = lerp t (ToNumber (start Fb) * ToNumber (start Fa))
                      (ToNumber (end Fb) * ToNumber (end Fa)) / ta;
          blend = coverage start end x y t
      in if strict_eq blend (Num 0) then (img, False)
         else if isStartCap then (img, True)
         else
           let x = (if reverse then - x else x);
               (x, y) = (if steep then (y, x) else (x, y))
           in (drawPixel img x y tr tg tb ta blend, True))"

text \<open>
  The two inner loops of \<open>drawLine\<close>, \<open>for (let y = ...; true; y++)\<close> and
  \<open>for (let y = ...; true; y--)\<close>, which differ in the start and in the step: the scan
  goes on while \<open>drawLinePixel\<close> returns \<open>true\<close>. A scan that never ends is \<open>None\<close>.
\<close>

partial_function (option) scan ::
  "ImageData \<Rightarrow> jsnum \<Rightarrow> jsnum \<Rightarrow> jsnum \<Rightarrow> LinePoint \<Rightarrow> LinePoint \<Rightarrow> bool \<Rightarrow> bool \<Rightarrow> ImageData option"
where
  "scan img x y step start end steep reverse =
     (case drawLinePixel img x y start end steep reverse of
        (img', inside) \<Rightarrow>
          if inside then scan img' x (rounded (y + step)) step start end steep reverse
          else Some img')"

text \<open>The outer loop of \<open>drawLine\<close>, \<open>for (let x = minX; x <= maxX; x++)\<close>.\<close>

partial_function (option) columns ::
  "ImageData \<Rightarrow> jsnum \<Rightarrow> jsnum \<Rightarrow> jsnum \<Rightarrow> LinePoint \<Rightarrow> LinePoint \<Rightarrow> bool \<Rightarrow> bool \<Rightarrow> ImageData option"
where
  "columns img x maxX slope start end steep reverse =
     (if x \<le> maxX then
        (let lineY = clamp (ToNumber (start Fy) + slope * (x - ToNumber (start Fx)))
                       (ToNumber (start Fy)) (ToNumber (end Fy))
         in case scan img x (Math_ceil lineY) (Num 1) start end steep reverse of
              None \<Rightarrow> None
            | Some img1 \<Rightarrow>
                (case scan img1 x (Math_floor lineY) (Num (- 1)) start end steep reverse of
                   None \<Rightarrow> None
                 | Some img2 \<Rightarrow>
                     columns img2 (rounded (x + Num 1)) maxX slope start end steep reverse))
      else Some img)"

text \<open>
  Swapping the axes of a point, which moves the values as they are, and inverting its
  X axis, which stores a number.
\<close>

definition swap_xy :: "LinePoint \<Rightarrow> LinePoint" where
  "swap_xy p = p(Fx := p Fy, Fy := p Fx)"

definition negate_x :: "LinePoint \<Rightarrow> LinePoint" where
  "negate_x p = p(Fx := Number (- ToNumber (p Fx)))"

text \<open>\<open>drawLine\<close>\<close>

definition drawLine :: "ImageData \<Rightarrow> LinePoint \<Rightarrow> LinePoint \<Rightarrow> ImageData option" where
  "drawLine img start end =
     (let steep = Math_abs (ToNumber (start Fy) - ToNumber (end Fy))
                    > Math_abs (ToNumber (start Fx) - ToNumber (end Fx));
          (start, end) = (if steep then (swap_xy start, swap_xy end) else (start, end));
          reverse = ToNumber (start Fx) > ToNumber (end Fx);
          (start, end) = (if reverse then (negate_x start, negate_x end) else (start, end));
          slope = (if strict_equals (end Fx) (start Fx) then Num 0
                   else (ToNumber (end Fy) - ToNumber (start Fy))
                          / (ToNumber (end Fx) - ToNumber (start Fx)));
          minX = Math_floor (ToNumber (start Fx) - ToNumber (start Fw) * Num 0.5);
          maxX = Math_floor (ToNumber (end Fx) + ToNumber (end Fw) * Num 0.5)
      in columns img minX maxX slope start end steep reverse)"

section \<open>The drawing context\<close>

text \<open>
  A \<open>Context\<close>: its strokes, its segmentation count and its default point, whose
  seven properties are numbers.
\<close>

record Context =
  ctx_strokes :: "Stroke list"
  ctx_segmentation :: jsnum
  ctx_default :: "field \<Rightarrow> jsnum"

text \<open>
  \<open>new Context()\<close>: no stroke, \<open>segmentation = 256\<close> and
  \<open>default = { x: 0, y: 0, r: 0, g: 0, b: 0, a: 1, w: 1 }\<close>.
\<close>

definition default_point :: "field \<Rightarrow> jsnum" where
  "default_point k = (if k = Fa \<or> k = Fw then Num 1 else Num 0)"

definition Context_new :: Context where
  "Context_new = \<lparr>ctx_strokes = [], ctx_segmentation = Num 256, ctx_default = default_point\<rparr>"

text \<open>
  \<open>Object.assign({}, this.default, sample)\<close>, used as a \<open>LinePoint\<close>: the sample's
  own properties over the defaults.
\<close>

definition resolve :: "(field \<Rightarrow> jsnum) \<Rightarrow> LinePointPartial \<Rightarrow> LinePoint" where
  "resolve dflt sample = prop_of (Object_assign (\<lambda>k. Some (Number (dflt k))) sample)"

text \<open>
  The loop \<open>for (let t = 1; t <= this.segmentation; t++)\<close> over the segments of one
  stroke. The result is \<open>None\<close> when the loop or a line never ends, an error when the
  stroke's evaluator throws, and the image otherwise.
\<close>

partial_function (option) segments ::
  "ImageData \<Rightarrow> Stroke \<Rightarrow> (field \<Rightarrow> jsnum) \<Rightarrow> jsnum \<Rightarrow> jsnum \<Rightarrow> LinePoint \<Rightarrow> (js_error + ImageData) option"
where
  "segments img stroke dflt segmentation t lineStart =
     (if t \<le> segmentation then
        (case evaluate stroke (t / segmentation) of
           Inl e \<Rightarrow> Some (Inl e)
         | Inr sample \<Rightarrow>
             (let lineEnd = resolve dflt sample
              in case drawLine img lineStart lineEnd of
                   None \<Rightarrow> None
                 | Some img' \<Rightarrow>
                     segments img' stroke dflt segmentation (rounded (t + Num 1)) lineEnd))
      else Some (Inr img))"

text \<open>The body of the loop over the strokes: the start cap, then the segments.\<close>

definition draw_stroke :: "Context \<Rightarrow> ImageData \<Rightarrow> Stroke \<Rightarrow> (js_error + ImageData) option" where
  "draw_stroke ctx img stroke =
     (case evaluate stroke (Num 0) of
        Inl e \<Rightarrow> Some (Inl e)
      | Inr sample \<Rightarrow>
          (let lineStart = resolve (ctx_default ctx) sample
           in case drawLine img lineStart lineStart of
                None \<Rightarrow> None
              | Some img' \<Rightarrow>
                  segments img' stroke (ctx_default ctx) (ctx_segmentation ctx) (Num 1) lineStart))"

text \<open>
  \<open>Context.draw\<close>, from the image that \<open>createImageData\<close> returned to the image
  handed to the canvas: the loop \<open>for (const stroke of this._strokes)\<close>.
\<close>

fun draw_strokes :: "Context \<Rightarrow> ImageData \<Rightarrow> Stroke list \<Rightarrow> (js_error + ImageData) option" where
  "draw_strokes ctx img [] = Some (Inr img)"
| "draw_strokes ctx img (stroke # rest) =
     (case draw_stroke ctx img stroke of
        None \<Rightarrow> None
      | Some (Inl e) \<Rightarrow> Some (Inl e)
      | Some (Inr img') \<Rightarrow> draw_strokes ctx img' rest)"

definition draw :: "Context \<Rightarrow> ImageData \<Rightarrow> (js_error + ImageData) option" where
  "draw ctx img = draw_strokes ctx img (ctx_strokes ctx)"

section \<open>The interpolation formulas as the specification words them\<close>

text \<open>
  The specification's \<open>bezier(t, values)\<close> on numbers: one value returns it, otherwise
  \<open>lerp(t, bezier(values minus last), bezier(values minus first))\<close>. The specification
  names no result for no value at all.
\<close>

function de_casteljau :: "jsnum \<Rightarrow> jsnum list \<Rightarrow> jsnum" where
  "de_casteljau t [] = NaN"
| "de_casteljau t [v] = v"
| "de_casteljau t (v # w # vs) =
     lerp t (de_casteljau t (butlast (v # w # vs))) (de_casteljau t (w # vs))"
  by pat_completeness auto
termination
  by (relation "measure (\<lambda>(t, values). length values)") auto

text \<open>
  The specification's angle correction on the normalized parameter \<open>u\<close>:
  \<open>arctan(tan(2\<pi>u)\<cdot>ratio)/2\<pi>\<close>, plus an offset of \<open>\<plusminus>0.5\<close> when the magnitude of
  \<open>u\<close> exceeds \<open>0.25\<close>, with the tangent of the real numbers.
\<close>

definition angle_formula :: "real \<Rightarrow> real \<Rightarrow> real" where
  "angle_formula ratio u =
     arctan (tan (u * 2 * pi) * ratio) / (2 * pi) + (if 1 / 4 < \<bar>u\<bar> then sgn u / 2 else 0)"

text \<open>
  The specification's compositing of a new colour over an old one with coverage
  \<open>blend\<close>: source-over weighted by \<open>blend\<close> in premultiplied space (each colour
  times its own alpha), then unpremultiplied (divided by the blended alpha).
\<close>

definition source_over :: "real \<Rightarrow> real \<Rightarrow> real \<Rightarrow> real \<Rightarrow> real \<Rightarrow> real" where
  "source_over blend old oldA new a =
     ((1 - blend) * (old * oldA) + blend * (new * a)) / ((1 - blend) * oldA + blend * a)"

section \<open>Strokes that return, and the real-valued reading of the rasterizer\<close>

text \<open>
  A stroke \<open>never_raises\<close> when its evaluator returns a sample at every number,
  \<open>NaN\<close> and the infinities included.
\<close>

definition never_raises :: "Stroke \<Rightarrow> bool" where
  "never_raises s = (\<forall>t. \<exists>p. evaluate s t = Inr p)"

text \<open>
  A stroke \<open>returns_on_reals\<close> when its evaluator returns a sample at every real
  number: it may throw at \<open>NaN\<close> or at an infinity.
\<close>

definition returns_on_reals :: "Stroke \<Rightarrow> bool" where
  "returns_on_reals s = (\<forall>t. \<exists>p. evaluate s (Num t) = Inr p)"

text \<open>
  What \<open>draw\<close> needs of a stroke: at every parameter in \<open>[0, 1]\<close> the stroke returns a
  sample, and the point it resolves to is one that \<open>drawLine\<close> can take. Such a point
  either has a position and a width that are real numbers of magnitude at most \<open>2\<^sup>5\<^sup>1\<close>,
  on which every loop counter of the rasterizer stays below \<open>2\<^sup>5\<^sup>3\<close>, or has an \<open>x\<close>
  or a \<open>w\<close> that is \<open>NaN\<close> as a number, on which the loop over the columns is not
  entered. The colours are not constrained.
\<close>

fun in_range :: "jsval \<Rightarrow> bool" where
  "in_range (Number (Num a)) = (\<bar>a\<bar> \<le> 2 ^ 51)"
| "in_range v = False"

definition drawable_point :: "LinePoint \<Rightarrow> bool" where
  "drawable_point p =
     ((in_range (p Fx) \<and> in_range (p Fy) \<and> in_range (p Fw))
      \<or> ToNumber (p Fx) = NaN \<or> ToNumber (p Fw) = NaN)"

definition drawable_at :: "(field \<Rightarrow> jsnum) \<Rightarrow> Stroke \<Rightarrow> jsnum \<Rightarrow> bool" where
  "drawable_at dflt s t = (\<exists>p. evaluate s t = Inr p \<and> drawable_point (resolve dflt p))"

definition drawable :: "(field \<Rightarrow> jsnum) \<Rightarrow> Stroke \<Rightarrow> bool" where
  "drawable dflt s = (\<forall>t. 0 \<le> t \<and> t \<le> 1 \<longrightarrow> drawable_at dflt s (Num t))"

text \<open>
  A point whose position and width are real numbers has the \<open>geometry\<close> of their
  values. On such points the projection parameter and the coverage are the real numbers
  \<open>proj_r\<close> and \<open>cov_r\<close>; \<open>reach\<close> bounds the distance from the centre line at
  which a pixel can still be covered.
\<close>

definition geometry :: "LinePoint \<Rightarrow> (field \<Rightarrow> real) \<Rightarrow> bool" where
  "geometry p q =
     (p Fx = Number (Num (q Fx)) \<and> p Fy = Number (Num (q Fy)) \<and> p Fw = Number (Num (q Fw)))"

definition proj_r :: "(field \<Rightarrow> real) \<Rightarrow> (field \<Rightarrow> real) \<Rightarrow> real \<Rightarrow> real \<Rightarrow> real" where
  "proj_r s e x y =
     (if e Fx - s Fx = 0 then 0
      else ((e Fx - s Fx) * (x - s Fx) + (e Fy - s Fy) * (y - s Fy))
           / ((e Fx - s Fx) * (e Fx - s Fx) + (e Fy - s Fy) * (e Fy - s Fy)))"

definition cov_r :: "(field \<Rightarrow> real) \<Rightarrow> (field \<Rightarrow> real) \<Rightarrow> real \<Rightarrow> real \<Rightarrow> real \<Rightarrow> real" where
  "cov_r s e x y t =
     (let tx = (1 - t) * s Fx + t * e Fx;
          ty = (1 - t) * s Fy + t * e Fy;
          tw = max ((1 - t) * s Fw + t * e Fw) 0;
          d = sqrt ((x - tx) * (x - tx) + (y - ty) * (y - ty))
      in max (min ((max tw 1 * 0.5 + 0.5 - d) * min tw 1) 1) 0)"

definition reach :: "(field \<Rightarrow> real) \<Rightarrow> (field \<Rightarrow> real) \<Rightarrow> real" where
  "reach s e = max (max (s Fw) (e Fw)) 1 * 0.5 + 0.5"

section \<open>Basic facts\<close>

lemma minus_Num [simp]: "Num a - Num b = Num (a - b)"
  by (simp add: minus_jsnum_def)

lemma clamp_Num:
  "clamp (Num t) (Num a) (Num b) =
     Num (if b < a then max (min t a) b else max (min t b) a)"
  by (simp add: clamp_def)

lemma evaluate_create [simp]: "evaluate (create ev) t = ev t"
  by (simp add: evaluate_def)

lemma Object_assign_empty [simp]: "Object_assign Map.empty p = p"
  by (simp add: Object_assign_def fun_eq_iff split: option.splits)

lemma Object_assign_XY:
  "Object_assign p [Fx \<mapsto> u, Fy \<mapsto> v] = p(Fx \<mapsto> u, Fy \<mapsto> v)"
  by (auto simp: Object_assign_def fun_eq_iff)

lemma array_get_Nil [simp]: "array_get [] v = None"
  by (cases v) auto

lemma array_get_int:
  "0 \<le> i \<Longrightarrow> i < int (length xs) \<Longrightarrow> array_get xs (Num (of_int i)) = Some (xs ! nat i)"
  by simp

lemma Stroke_new_eval [simp]: "evaluate Stroke_new t = Inr Map.empty"
  by (simp add: Stroke_new_def)

lemma Stroke_fix_new [simp]: "evaluate (Stroke_fix Stroke_new q) t = Inr q"
  by (simp add: Stroke_fix_def Stroke_new_def)

lemma prop_of_simps [simp]:
  "p k = None \<Longrightarrow> prop_of p k = Undefined"
  "p k = Some v \<Longrightarrow> prop_of p k = v"
  by (simp_all add: prop_of_def)

section \<open>Merging combinators\<close>

text \<open>
  C3, as the code has it. For a parent that evaluates to the sample \<open>p\<close> at \<open>t\<close>,
  each of \<open>parametric\<close>, \<open>transform\<close> and \<open>fix\<close> yields a sample whose field is
  the overriding record's where that record has the field as an own property, whatever
  the property holds, and the parent's field, unchanged, where it has no such property.
  The overriding record is \<open>f(t)\<close>, the transform's result on the parent's sample, and
  the fixed point. A property that holds \<open>undefined\<close> is copied like any other: the
  merged field is then \<open>undefined\<close>, and the parent's value does not fall through.
\<close>

theorem merge_precedence:
  assumes "evaluate this t = Inr p"
  shows "(\<exists>m. evaluate (Stroke_parametric this f) t = Inr m \<and>
            (\<forall>k. m k = (case f t k of Some v \<Rightarrow> Some v | None \<Rightarrow> p k)))
       \<and> (\<exists>m. evaluate (transform this g) t = Inr m \<and>
            (\<forall>k. m k = (case g p k of Some v \<Rightarrow> Some v | None \<Rightarrow> p k)))
       \<and> (\<exists>m. evaluate (Stroke_fix this point) t = Inr m \<and>
            (\<forall>k. m k = (case point k of Some v \<Rightarrow> Some v | None \<Rightarrow> p k))
          \<and> (\<forall>k. point k = Some Undefined \<longrightarrow> prop_of m k = Undefined)
          \<and> (\<forall>k. point k = None \<longrightarrow> prop_of m k = prop_of p k))"
  using assms
  by (simp add: evaluate_def Stroke_parametric_def transform_def Stroke_fix_def
      Object_assign_def prop_of_def)

theorem merge_precedence_witness:
  "evaluate (Stroke_fix Stroke_new [Fx \<mapsto> Number (Num 1), Fr \<mapsto> Number (Num 0.5)]) (Num 0)
     = Inr [Fx \<mapsto> Number (Num 1), Fr \<mapsto> Number (Num 0.5)]
   \<and> (\<exists>m. evaluate (Stroke_parametric
                   (Stroke_fix Stroke_new [Fx \<mapsto> Number (Num 1), Fr \<mapsto> Number (Num 0.5)])
                   (\<lambda>t. [Fx \<mapsto> Number t])) (Num 0) = Inr m
          \<and> m Fx = Some (Number (Num 0)) \<and> m Fr = Some (Number (Num 0.5)) \<and> m Fy = None)
   \<and> (\<exists>m. evaluate (transform
                   (Stroke_fix Stroke_new [Fx \<mapsto> Number (Num 1), Fr \<mapsto> Number (Num 0.5)])
                   (\<lambda>q. [Fy \<mapsto> Number (Num 3)])) (Num 0) = Inr m
          \<and> m Fx = Some (Number (Num 1)) \<and> m Fr = Some (Number (Num 0.5))
          \<and> m Fy = Some (Number (Num 3)))
   \<and> (\<exists>m. evaluate (Stroke_fix
                   (Stroke_fix Stroke_new [Fx \<mapsto> Number (Num 1), Fr \<mapsto> Number (Num 0.5)])
                   [Fr \<mapsto> Number (Num 0)]) (Num 0) = Inr m
          \<and> m Fx = Some (Number (Num 1)) \<and> m Fr = Some (Number (Num 0)) \<and> m Fy = None)"
proof -
  let ?p = "[Fx \<mapsto> Number (Num 1), Fr \<mapsto> Number (Num 0.5)]"
  have h: "evaluate (Stroke_fix Stroke_new ?p) (Num 0) = Inr ?p"
    by simp
  note th = merge_precedence [OF h, of "\<lambda>t. [Fx \<mapsto> Number t]" "\<lambda>q. [Fy \<mapsto> Number (Num 3)]"
      "[Fr \<mapsto> Number (Num 0)]"]
  from th obtain m1 where m1: "evaluate (Stroke_parametric (Stroke_fix Stroke_new ?p)
        (\<lambda>t. [Fx \<mapsto> Number t])) (Num 0) = Inr m1"
      "\<And>k. m1 k = (case [Fx \<mapsto> Number (Num 0)] k of Some v \<Rightarrow> Some v | None \<Rightarrow> ?p k)"
    by blast
  from th obtain m2 where m2: "evaluate (transform (Stroke_fix Stroke_new ?p)
        (\<lambda>q. [Fy \<mapsto> Number (Num 3)])) (Num 0) = Inr m2"
      "\<And>k. m2 k = (case [Fy \<mapsto> Number (Num 3)] k of Some v \<Rightarrow> Some v | None \<Rightarrow> ?p k)"
    by blast
  from th obtain m3 where m3: "evaluate (Stroke_fix (Stroke_fix Stroke_new ?p)
        [Fr \<mapsto> Number (Num 0)]) (Num 0) = Inr m3"
      "\<And>k. m3 k = (case [Fr \<mapsto> Number (Num 0)] k of Some v \<Rightarrow> Some v | None \<Rightarrow> ?p k)"
    by blast
  have "m1 Fx = Some (Number (Num 0)) \<and> m1 Fr = Some (Number (Num 0.5)) \<and> m1 Fy = None"
    by (simp add: m1(2))
  moreover have "m2 Fx = Some (Number (Num 1)) \<and> m2 Fr = Some (Number (Num 0.5))
      \<and> m2 Fy = Some (Number (Num 3))"
    by (simp add: m2(2))
  moreover have "m3 Fx = Some (Number (Num 1)) \<and> m3 Fr = Some (Number (Num 0)) \<and> m3 Fy = None"
    by (simp add: m3(2))
  ultimately show ?thesis
    using h m1(1) m2(1) m3(1) by blast
qed

theorem merge_undefined_counterexample:
  "evaluate (Stroke_fix Stroke_new [Fx \<mapsto> Number (Num 1), Fr \<mapsto> Number (Num 0.5)]) (Num 0)
     = Inr [Fx \<mapsto> Number (Num 1), Fr \<mapsto> Number (Num 0.5)]
   \<and> prop_of [Fr \<mapsto> Undefined] Fr = Undefined
   \<and> evaluate (Stroke_fix
         (Stroke_fix Stroke_new [Fx \<mapsto> Number (Num 1), Fr \<mapsto> Number (Num 0.5)])
         [Fr \<mapsto> Undefined]) (Num 0)
     = Inr [Fx \<mapsto> Number (Num 1), Fr \<mapsto> Undefined]
   \<and> prop_of [Fx \<mapsto> Number (Num 1), Fr \<mapsto> Undefined] Fr \<noteq> Number (Num 0.5)"
  by (auto simp: Stroke_fix_def Stroke_new_def evaluate_def Object_assign_def fun_eq_iff)

section \<open>Sequences\<close>

lemma sequence_index:
  fixes t :: real
  assumes "strokes \<noteq> []"
  defines "N \<equiv> int (length strokes)"
  defines "i \<equiv> max 0 (min \<lfloor>t * real_of_int N\<rfloor> (N - 1))"
  shows "clamp (Math_floor (Num t * Num (real (length strokes)))) (Num 0)
           (Num (real (length strokes)) - Num 1) = Num (of_int i)"
    and "0 \<le> i" and "i < int (length strokes)"
proof -
  have N: "1 \<le> N" using assms(1) by (cases strokes) (auto simp: N_def)
  have r: "real (length strokes) = real_of_int N" by (simp add: N_def)
  show "clamp (Math_floor (Num t * Num (real (length strokes)))) (Num 0)
           (Num (real (length strokes)) - Num 1) = Num (of_int i)"
    using N unfolding r by (simp add: clamp_Num i_def max.commute)
  show "0 \<le> i" by (simp add: i_def)
  show "i < int (length strokes)" using N unfolding i_def N_def by linarith
qed

lemma sequence_eval:
  assumes "strokes \<noteq> []"
  shows "evaluate (sequence strokes) (Num t) =
           (let N = int (length strokes);
                i = max 0 (min \<lfloor>t * real_of_int N\<rfloor> (N - 1))
            in evaluate (strokes ! nat i) (Num (t * real_of_int N - real_of_int i)))"
proof -
  let ?N = "int (length strokes)"
  let ?i = "max 0 (min \<lfloor>t * real_of_int ?N\<rfloor> (?N - 1))"
  note ix = sequence_index [OF assms, of t]
  have "array_get strokes (Num (of_int ?i)) = Some (strokes ! nat ?i)"
    using ix(2,3) by (rule array_get_int)
  then show ?thesis
    using ix(1) by (simp add: evaluate_def sequence_def Let_def)
qed

text \<open>
  C5. For a non-empty list of \<open>N\<close> curves and every real \<open>t\<close>, the sequence
  evaluates at \<open>t\<close> to \<open>curves[i].evaluate(N\<cdot>t - i)\<close> where \<open>i\<close> is
  \<open>floor(N\<cdot>t)\<close> clamped into \<open>[0, N - 1]\<close>, which is an index of the list for
  every \<open>t\<close>, inside \<open>[0, 1]\<close> or not. In particular \<open>sequence([A, B])\<close> is \<open>A\<close> at
  \<open>0.5\<close> when evaluated at \<open>0.25\<close>, and \<open>B\<close> at \<open>0.5\<close> when evaluated at \<open>0.75\<close>.
\<close>

theorem sequence_dispatch:
  assumes "strokes \<noteq> []"
  shows "(let N = int (length strokes);
              i = max 0 (min \<lfloor>t * real_of_int N\<rfloor> (N - 1))
          in 0 \<le> i \<and> i < N \<and>
             evaluate (sequence strokes) (Num t) =
               evaluate (strokes ! nat i) (Num (t * real_of_int N - real_of_int i)))
       \<and> evaluate (sequence [c1, c2]) (Num 0.25) = evaluate c1 (Num 0.5)
       \<and> evaluate (sequence [c1, c2]) (Num 0.75) = evaluate c2 (Num 0.5)"
proof -
  have "evaluate (sequence [c1, c2]) (Num 0.25) = evaluate c1 (Num 0.5)"
    using sequence_eval [of "[c1, c2]" "0.25"] by (simp add: Let_def)
  moreover have "evaluate (sequence [c1, c2]) (Num 0.75) = evaluate c2 (Num 0.5)"
    using sequence_eval [of "[c1, c2]" "0.75"] by (simp add: Let_def)
  ultimately show ?thesis
    using sequence_eval [OF assms, of t] sequence_index(2,3) [OF assms, of t]
    by (simp add: Let_def)
qed

theorem sequence_dispatch_witness:
  "[Stroke_fix Stroke_new [Fx \<mapsto> Number (Num 1)], Stroke_new] \<noteq> []
   \<and> evaluate (sequence [Stroke_fix Stroke_new [Fx \<mapsto> Number (Num 1)], Stroke_new]) (Num 0.25)
       = Inr [Fx \<mapsto> Number (Num 1)]
   \<and> evaluate (sequence [Stroke_fix Stroke_new [Fx \<mapsto> Number (Num 1)], Stroke_new]) (Num 7)
       = Inr Map.empty
   \<and> evaluate (sequence [Stroke_fix Stroke_new [Fx \<mapsto> Number (Num 1)], Stroke_new]) (Num (- 3))
       = Inr [Fx \<mapsto> Number (Num 1)]"
  using sequence_dispatch [of "[Stroke_fix Stroke_new [Fx \<mapsto> Number (Num 1)], Stroke_new]" "0.25"]
    sequence_dispatch [of "[Stroke_fix Stroke_new [Fx \<mapsto> Number (Num 1)], Stroke_new]" "7"]
    sequence_dispatch [of "[Stroke_fix Stroke_new [Fx \<mapsto> Number (Num 1)], Stroke_new]" "- 3"]
  by (simp add: Let_def)

text \<open>
  C10. For the empty list the dispatch index \<open>clamp(floor(t\<cdot>0), 0, -1)\<close> is \<open>0\<close>,
  since \<open>clamp\<close> swaps the inverted bounds; element \<open>0\<close> of the empty array is
  \<open>undefined\<close>, and the evaluation throws instead of returning a sample, for every
  real \<open>t\<close> (and for the special values too).
\<close>

theorem sequence_empty:
  "clamp (Math_floor (Num t * Num (real (length ([]::Stroke list))))) (Num 0)
       (Num (real (length ([]::Stroke list))) - Num 1) = Num 0
   \<and> array_get ([]::Stroke list) (Num 0) = None
   \<and> evaluate (sequence []) (Num t) = Inl TypeError
   \<and> (\<forall>v. evaluate (sequence []) v = Inl TypeError)"
  by (simp add: evaluate_def sequence_def clamp_Num Let_def)

section \<open>Reparametrization\<close>

text \<open>
  C6. \<open>c.cut(t0, t1).evaluate(t) = c.evaluate((1 - t)\<cdot>t0 + t\<cdot>t1)\<close> for all reals
  \<open>t0\<close>, \<open>t1\<close>, \<open>t\<close>; in particular \<open>c.cut(0.25, 0.75)\<close> is \<open>c\<close> at \<open>0.25\<close> when
  evaluated at \<open>0\<close> and \<open>c\<close> at \<open>0.75\<close> when evaluated at \<open>1\<close>.
\<close>

theorem cut_reparametrization:
  "evaluate (cut c (Num t0) (Num t1)) (Num t) = evaluate c (Num ((1 - t) * t0 + t * t1))
   \<and> evaluate (cut c (Num 0.25) (Num 0.75)) (Num 0) = evaluate c (Num 0.25)
   \<and> evaluate (cut c (Num 0.25) (Num 0.75)) (Num 1) = evaluate c (Num 0.75)"
  by (simp add: evaluate_def cut_def slide_def algebra_simps)

section \<open>Affine transforms\<close>

lemma matrix_eval:
  "evaluate this t = Inr p \<Longrightarrow>
   evaluate (matrix this a b c d e f) t =
     Inr (case (prop_of p Fx, prop_of p Fy) of
            (Number px, Number py) \<Rightarrow>
              Object_assign p [Fx \<mapsto> Number (a * px + c * py + e),
                               Fy \<mapsto> Number (b * px + d * py + f)]
          | _ \<Rightarrow> p)"
  by (simp add: evaluate_def matrix_def split: jsval.splits)

lemma matrix_noop:
  "evaluate this t = Inr p \<Longrightarrow> prop_of p Fx = Undefined \<or> prop_of p Fy = Undefined \<Longrightarrow>
   evaluate (matrix this a b c d e f) t = Inr p"
  by (auto simp: matrix_eval split: jsval.splits)

lemma matrix_defined:
  "evaluate this t = Inr p \<Longrightarrow> p Fx = Some (Number px) \<Longrightarrow> p Fy = Some (Number py) \<Longrightarrow>
   evaluate (matrix this a b c d e f) t =
     Inr (p(Fx \<mapsto> Number (a * px + c * py + e), Fy \<mapsto> Number (b * px + d * py + f)))"
  by (simp add: matrix_eval Object_assign_XY)

lemma matrix_frame:
  "evaluate this t = Inr p \<Longrightarrow>
   \<exists>m. evaluate (matrix this a b c d e f) t = Inr m \<and>
       (\<forall>k. k \<noteq> Fx \<and> k \<noteq> Fy \<longrightarrow> m k = p k)"
  by (auto simp: matrix_eval Object_assign_XY split: jsval.splits)

text \<open>
  C7. For a curve that evaluates to the sample \<open>p\<close> at \<open>t\<close> and each of
  \<open>translate\<close>, \<open>scale\<close>, \<open>rotate\<close> and \<open>matrix\<close>: when \<open>p\<close> leaves \<open>x\<close> or \<open>y\<close>
  undefined (the property is missing, or it holds \<open>undefined\<close>) the transformed curve's
  sample is \<open>p\<close>; in every case the fields other than \<open>x\<close> and \<open>y\<close> are those of
  \<open>p\<close>; and when \<open>x\<close> and \<open>y\<close> are defined (finite, as are the parameters) the sample
  is \<open>p\<close> with \<open>x\<close> and \<open>y\<close> replaced by the image of the point under the affine
  map.
\<close>

theorem affine_transforms:
  assumes "evaluate c t = Inr p"
  shows "(prop_of p Fx = Undefined \<or> prop_of p Fy = Undefined \<longrightarrow>
            evaluate (translate c jx jy) t = Inr p
          \<and> evaluate (scale c jsx jsy jx jy) t = Inr p
          \<and> evaluate (Stroke_rotate c jangle jx jy) t = Inr p
          \<and> evaluate (matrix c ja jb jc jd je jf) t = Inr p)
       \<and> (\<forall>k. k \<noteq> Fx \<and> k \<noteq> Fy \<longrightarrow>
            (\<exists>m. evaluate (translate c jx jy) t = Inr m \<and> m k = p k)
          \<and> (\<exists>m. evaluate (scale c jsx jsy jx jy) t = Inr m \<and> m k = p k)
          \<and> (\<exists>m. evaluate (Stroke_rotate c jangle jx jy) t = Inr m \<and> m k = p k)
          \<and> (\<exists>m. evaluate (matrix c ja jb jc jd je jf) t = Inr m \<and> m k = p k))
       \<and> (p Fx = Some (Number (Num x)) \<and> p Fy = Some (Number (Num y)) \<longrightarrow>
            evaluate (translate c (Num dx) (Num dy)) t =
              Inr (p(Fx \<mapsto> Number (Num (x + dx)), Fy \<mapsto> Number (Num (y + dy))))
          \<and> evaluate (scale c (Num sx) (Num sy) (Num ox) (Num oy)) t =
              Inr (p(Fx \<mapsto> Number (Num (ox + sx * (x - ox))),
                     Fy \<mapsto> Number (Num (oy + sy * (y - oy)))))
          \<and> evaluate (Stroke_rotate c (Num angle) (Num ox) (Num oy)) t =
              Inr (p(Fx \<mapsto> Number (Num (ox + cos angle * (x - ox) - sin angle * (y - oy))),
                     Fy \<mapsto> Number (Num (oy + sin angle * (x - ox) + cos angle * (y - oy)))))
          \<and> evaluate (matrix c (Num a) (Num b) (Num cc) (Num d) (Num e) (Num f)) t =
              Inr (p(Fx \<mapsto> Number (Num (a * x + cc * y + e)),
                     Fy \<mapsto> Number (Num (b * x + d * y + f)))))"
proof (intro conjI impI allI)
  assume u: "prop_of p Fx = Undefined \<or> prop_of p Fy = Undefined"
  show "evaluate (translate c jx jy) t = Inr p"
    unfolding translate_def by (rule matrix_noop [OF assms u])
  show "evaluate (scale c jsx jsy jx jy) t = Inr p"
    unfolding scale_def by (rule matrix_noop [OF assms u])
  show "evaluate (Stroke_rotate c jangle jx jy) t = Inr p"
    unfolding Stroke_rotate_def by (rule matrix_noop [OF assms u])
  show "evaluate (matrix c ja jb jc jd je jf) t = Inr p"
    by (rule matrix_noop [OF assms u])
next
  fix k assume k: "k \<noteq> Fx \<and> k \<noteq> Fy"
  show "\<exists>m. evaluate (translate c jx jy) t = Inr m \<and> m k = p k"
    unfolding translate_def using matrix_frame [OF assms] k by blast
  show "\<exists>m. evaluate (scale c jsx jsy jx jy) t = Inr m \<and> m k = p k"
    unfolding scale_def using matrix_frame [OF assms] k by blast
  show "\<exists>m. evaluate (Stroke_rotate c jangle jx jy) t = Inr m \<and> m k = p k"
    unfolding Stroke_rotate_def using matrix_frame [OF assms] k by blast
  show "\<exists>m. evaluate (matrix c ja jb jc jd je jf) t = Inr m \<and> m k = p k"
    using matrix_frame [OF assms] k by blast
next
  assume xy: "p Fx = Some (Number (Num x)) \<and> p Fy = Some (Number (Num y))"
  note m = matrix_defined [OF assms conjunct1 [OF xy] conjunct2 [OF xy]]
  show "evaluate (translate c (Num dx) (Num dy)) t =
          Inr (p(Fx \<mapsto> Number (Num (x + dx)), Fy \<mapsto> Number (Num (y + dy))))"
    unfolding translate_def m by simp
  show "evaluate (scale c (Num sx) (Num sy) (Num ox) (Num oy)) t =
          Inr (p(Fx \<mapsto> Number (Num (ox + sx * (x - ox))),
                 Fy \<mapsto> Number (Num (oy + sy * (y - oy)))))"
    unfolding scale_def m by (simp add: algebra_simps)
  show "evaluate (Stroke_rotate c (Num angle) (Num ox) (Num oy)) t =
          Inr (p(Fx \<mapsto> Number (Num (ox + cos angle * (x - ox) - sin angle * (y - oy))),
                 Fy \<mapsto> Number (Num (oy + sin angle * (x - ox) + cos angle * (y - oy)))))"
    unfolding Stroke_rotate_def m by (simp add: algebra_simps)
  show "evaluate (matrix c (Num a) (Num b) (Num cc) (Num d) (Num e) (Num f)) t =
          Inr (p(Fx \<mapsto> Number (Num (a * x + cc * y + e)),
                 Fy \<mapsto> Number (Num (b * x + d * y + f))))"
    unfolding m by simp
qed

theorem affine_transforms_witness:
  "evaluate (Stroke_fix Stroke_new
        [Fx \<mapsto> Number (Num 1), Fy \<mapsto> Number (Num 2), Fr \<mapsto> Number (Num 0.5)]) (Num 0)
     = Inr [Fx \<mapsto> Number (Num 1), Fy \<mapsto> Number (Num 2), Fr \<mapsto> Number (Num 0.5)]
   \<and> evaluate (translate (Stroke_fix Stroke_new
        [Fx \<mapsto> Number (Num 1), Fy \<mapsto> Number (Num 2), Fr \<mapsto> Number (Num 0.5)])
         (Num 10) (Num 20)) (Num 0)
     = Inr [Fx \<mapsto> Number (Num 11), Fy \<mapsto> Number (Num 22), Fr \<mapsto> Number (Num 0.5)]
   \<and> evaluate (scale (Stroke_fix Stroke_new
        [Fx \<mapsto> Number (Num 1), Fy \<mapsto> Number (Num 2), Fr \<mapsto> Number (Num 0.5)])
         (Num 2) (Num 3) (Num 1) (Num 1)) (Num 0)
     = Inr [Fx \<mapsto> Number (Num 1), Fy \<mapsto> Number (Num 4), Fr \<mapsto> Number (Num 0.5)]
   \<and> evaluate (Stroke_rotate (Stroke_fix Stroke_new
        [Fx \<mapsto> Number (Num 1), Fy \<mapsto> Number (Num 2), Fr \<mapsto> Number (Num 0.5)])
         (Num 0) (Num 1) (Num 1)) (Num 0)
     = Inr [Fx \<mapsto> Number (Num 1), Fy \<mapsto> Number (Num 2), Fr \<mapsto> Number (Num 0.5)]
   \<and> evaluate (matrix (Stroke_fix Stroke_new
        [Fx \<mapsto> Number (Num 1), Fy \<mapsto> Number (Num 2), Fr \<mapsto> Number (Num 0.5)])
         (Num 0) (Num 1) (Num 1) (Num 0) (Num 0) (Num 0)) (Num 0)
     = Inr [Fx \<mapsto> Number (Num 2), Fy \<mapsto> Number (Num 1), Fr \<mapsto> Number (Num 0.5)]
   \<and> evaluate (Stroke_fix Stroke_new [Fx \<mapsto> Number (Num 1), Fr \<mapsto> Number (Num 0.5)]) (Num 0)
     = Inr [Fx \<mapsto> Number (Num 1), Fr \<mapsto> Number (Num 0.5)]
   \<and> evaluate (translate (Stroke_fix Stroke_new [Fx \<mapsto> Number (Num 1), Fr \<mapsto> Number (Num 0.5)])
         (Num 10) (Num 20)) (Num 0)
     = Inr [Fx \<mapsto> Number (Num 1), Fr \<mapsto> Number (Num 0.5)]
   \<and> evaluate (Stroke_fix Stroke_new [Fx \<mapsto> Number (Num 1), Fy \<mapsto> Undefined]) (Num 0)
     = Inr [Fx \<mapsto> Number (Num 1), Fy \<mapsto> Undefined]
   \<and> evaluate (translate (Stroke_fix Stroke_new [Fx \<mapsto> Number (Num 1), Fy \<mapsto> Undefined])
         (Num 10) (Num 20)) (Num 0)
     = Inr [Fx \<mapsto> Number (Num 1), Fy \<mapsto> Undefined]"
proof -
  let ?p = "[Fx \<mapsto> Number (Num 1), Fy \<mapsto> Number (Num 2), Fr \<mapsto> Number (Num 0.5)]"
  let ?q = "[Fx \<mapsto> Number (Num 1), Fr \<mapsto> Number (Num 0.5)]"
  let ?u = "[Fx \<mapsto> Number (Num 1), Fy \<mapsto> Undefined]"
  have h1: "evaluate (Stroke_fix Stroke_new ?p) (Num 0) = Inr ?p"
    by simp
  have h2: "evaluate (Stroke_fix Stroke_new ?q) (Num 0) = Inr ?q"
    by simp
  have h3: "evaluate (Stroke_fix Stroke_new ?u) (Num 0) = Inr ?u"
    by simp
  note a1 = affine_transforms [OF h1, where x = 1 and y = 2 and dx = 10 and dy = 20
      and sx = 2 and sy = 3 and ox = 1 and oy = 1 and angle = 0
      and a = 0 and b = 1 and cc = 1 and d = 0 and e = 0 and f = 0]
  note a2 = affine_transforms [OF h2, where jx = "Num 10" and jy = "Num 20"]
  note a3 = affine_transforms [OF h3, where jx = "Num 10" and jy = "Num 20"]
  have xy: "?p Fx = Some (Number (Num 1)) \<and> ?p Fy = Some (Number (Num 2))"
    and u: "prop_of ?q Fx = Undefined \<or> prop_of ?q Fy = Undefined"
    and v: "prop_of ?u Fx = Undefined \<or> prop_of ?u Fy = Undefined"
    by simp_all
  note b1 = conjunct2 [OF conjunct2 [OF a1], rule_format, OF xy]
  note b2 = conjunct1 [OF a2, rule_format, OF u]
  note b3 = conjunct1 [OF a3, rule_format, OF v]
  have m1: "?p(Fx \<mapsto> Number (Num (1 + 10)), Fy \<mapsto> Number (Num (2 + 20)))
        = [Fx \<mapsto> Number (Num 11), Fy \<mapsto> Number (Num 22), Fr \<mapsto> Number (Num 0.5)]"
    and m2: "?p(Fx \<mapsto> Number (Num (1 + 2 * (1 - 1))), Fy \<mapsto> Number (Num (1 + 3 * (2 - 1))))
        = [Fx \<mapsto> Number (Num 1), Fy \<mapsto> Number (Num 4), Fr \<mapsto> Number (Num 0.5)]"
    and m3: "?p(Fx \<mapsto> Number (Num (1 + cos 0 * (1 - 1) - sin 0 * (2 - 1))),
                Fy \<mapsto> Number (Num (1 + sin 0 * (1 - 1) + cos 0 * (2 - 1)))) = ?p"
    and m4: "?p(Fx \<mapsto> Number (Num (0 * 1 + 1 * 2 + 0)), Fy \<mapsto> Number (Num (1 * 1 + 0 * 2 + 0)))
        = [Fx \<mapsto> Number (Num 2), Fy \<mapsto> Number (Num 1), Fr \<mapsto> Number (Num 0.5)]"
    by (auto simp: fun_eq_iff)
  show ?thesis
    using h1 h2 h3 b1 b2 b3 unfolding m1 m2 m3 m4 by blast
qed

section \<open>Bezier interpolation\<close>

declare de_casteljau.simps(3) [simp del]

lemma bezier_de_casteljau:
  "xs \<noteq> [] \<Longrightarrow> bezier t (map Number xs) = Inr (Number (de_casteljau t xs))"
proof (induction t xs rule: de_casteljau.induct)
  case (1 t)
  then show ?case by simp
next
  case (2 t v)
  show ?case by (subst bezier.simps) simp
next
  case (3 t v w vs)
  have l: "bezier t (map Number (butlast (v # w # vs)))
      = Inr (Number (de_casteljau t (butlast (v # w # vs))))"
    by (rule 3(1)) simp
  have r: "bezier t (map Number (w # vs)) = Inr (Number (de_casteljau t (w # vs)))"
    by (rule 3(2)) simp
  have b: "butlast (map Number (v # w # vs)) = map Number (butlast (v # w # vs))"
    by (simp only: map_butlast)
  have t: "tl (map Number (v # w # vs)) = map Number (w # vs)"
    by simp
  have n: "length (map Number (v # w # vs)) \<noteq> 1" "map Number (v # w # vs) \<noteq> []"
    by simp_all
  show ?case
    by (subst bezier.simps, subst de_casteljau.simps(3))
       (simp only: n if_False b t l r sum.case ToNumber.simps)
qed

lemma in_set_last: "x \<in> set xs \<Longrightarrow> x \<notin> set (butlast xs) \<Longrightarrow> x = last xs"
  by (induction xs) (auto split: if_splits)

lemma lerp_NaN [simp]: "lerp t NaN b = NaN" "lerp t a NaN = NaN"
proof -
  have m: "c * NaN = NaN" "NaN * c = NaN" for c :: jsnum
    by (cases c; simp)+
  have p: "c + NaN = NaN" "NaN + c = NaN" for c :: jsnum
    by (cases c; simp)+
  show "lerp t NaN b = NaN" "lerp t a NaN = NaN"
    by (simp_all add: lerp_def m p)
qed

lemma bezier_returns:
  "vs \<noteq> [] \<Longrightarrow> \<exists>v. bezier t vs = Inr v \<and> (Undefined \<in> set vs \<longrightarrow> ToNumber v = NaN)"
proof (induction t vs rule: bezier.induct)
  case (1 t vs)
  show ?case
  proof (cases "length vs = 1")
    case True
    then obtain v where v: "vs = [v]"
      by (cases vs) auto
    show ?thesis
      unfolding v by (subst bezier.simps) auto
  next
    case False
    with 1(3) obtain a b rest where abr: "vs = a # b # rest"
      by (cases vs; cases "tl vs") auto
    then have nb: "butlast vs \<noteq> []" and nt: "tl vs \<noteq> []"
      by simp_all
    from 1(1) [OF False 1(3) nb]
    obtain l where l: "bezier t (butlast vs) = Inr l"
      and lu: "Undefined \<in> set (butlast vs) \<longrightarrow> ToNumber l = NaN"
      by blast
    from 1(2) [OF False 1(3) l nt]
    obtain r where r: "bezier t (tl vs) = Inr r"
      and ru: "Undefined \<in> set (tl vs) \<longrightarrow> ToNumber r = NaN"
      by blast
    have e: "bezier t vs = Inr (Number (lerp t (ToNumber l) (ToNumber r)))"
      using False 1(3) l r by (subst bezier.simps) simp
    have "lerp t (ToNumber l) (ToNumber r) = NaN" if u: "Undefined \<in> set vs"
    proof (cases "Undefined \<in> set (butlast vs)")
      case True
      with lu show ?thesis by simp
    next
      case False
      from in_set_last [OF u False] have "last vs = Undefined"
        by simp
      moreover have "last (tl vs) = last vs"
        unfolding abr by simp
      ultimately have "last (tl vs) = Undefined"
        by simp
      then have "Undefined \<in> set (tl vs)"
        using last_in_set [OF nt] by simp
      with ru show ?thesis by simp
    qed
    with e show ?thesis by simp
  qed
qed

lemma bezier_undefined:
  assumes "2 \<le> length vs" and "Undefined \<in> set vs"
  shows "bezier t vs = Inr (Number NaN)"
proof -
  from assms(1) obtain a b rest where abr: "vs = a # b # rest"
    by (cases vs; cases "tl vs") auto
  then have ne: "vs \<noteq> []" and nb: "butlast vs \<noteq> []" and nt: "tl vs \<noteq> []"
    and n1: "length vs \<noteq> 1"
    by simp_all
  obtain l where l: "bezier t (butlast vs) = Inr l"
    using bezier_returns [OF nb] by blast
  obtain r where r: "bezier t (tl vs) = Inr r"
    using bezier_returns [OF nt] by blast
  obtain v where v: "bezier t vs = Inr v" and "ToNumber v = NaN"
    using bezier_returns [OF ne] assms(2) by blast
  moreover have "bezier t vs = Inr (Number (lerp t (ToNumber l) (ToNumber r)))"
    using n1 ne l r by (subst bezier.simps) simp
  ultimately show ?thesis
    by auto
qed

lemma all_fields: "k \<in> set [Fx, Fy, Fr, Fg, Fb, Fa, Fw]"
  by (cases k) simp_all

lemma set_Object_keys: "set (Object_keys p) = {k. p k \<noteq> None}"
  unfolding Object_keys_def set_filter using all_fields by blast

lemma bezier_props_eq:
  "points \<noteq> [] \<Longrightarrow>
   bezier_props t points props result =
     Inr (\<lambda>k. if k \<in> set props then Some (projr (bezier t (map (\<lambda>q. prop_of q k) points)))
               else result k)"
proof (induction props arbitrary: result)
  case Nil
  then show ?case by simp
next
  case (Cons k0 ks)
  obtain v where v: "bezier t (map (\<lambda>q. prop_of q k0) points) = Inr v"
    using bezier_returns [of "map (\<lambda>q. prop_of q k0) points" t] Cons.prems by auto
  show ?case
    using Cons.IH [OF Cons.prems] v by (auto simp: fun_eq_iff)
qed

lemma bezier_common_props:
  assumes "points \<noteq> []"
  shows "set (filter (\<lambda>p. list_all (\<lambda>s. p \<in> s) (map (\<lambda>p. set (Object_keys p)) points))
                (Object_keys (hd points)))
         = {k. \<forall>q\<in>set points. q k \<noteq> None}"
  using assms by (cases points) (auto simp: set_Object_keys list_all_iff)

lemma bezier_sample:
  assumes "points \<noteq> []" and "evaluate this t = Inr p"
  shows "\<exists>s m. Stroke_bezier this points = Inr s \<and> evaluate s t = Inr m \<and>
           (\<forall>k. m k = (if \<forall>q\<in>set points. q k \<noteq> None
                        then Some (projr (bezier t (map (\<lambda>q. prop_of q k) points)))
                        else p k))"
proof -
  let ?props = "filter (\<lambda>p. list_all (\<lambda>s. p \<in> s) (map (\<lambda>p. set (Object_keys p)) points))
                  (Object_keys (hd points))"
  let ?s = "create (\<lambda>t.
              case bezier_props t points ?props Map.empty of
                Inl e \<Rightarrow> Inl e
              | Inr result \<Rightarrow>
                  (case evaluator this t of
                     Inl e \<Rightarrow> Inl e
                   | Inr p \<Rightarrow> Inr (Object_assign p result)))"
  have s: "Stroke_bezier this points = Inr ?s"
    using assms(1) by (cases points) (simp_all add: Stroke_bezier_def Let_def)
  let ?m = "Object_assign p (\<lambda>k. if k \<in> set ?props
              then Some (projr (bezier t (map (\<lambda>q. prop_of q k) points))) else None)"
  have e: "evaluate ?s t = Inr ?m"
    using assms(2) by (simp add: bezier_props_eq [OF assms(1)] evaluate_def)
  have all: "\<forall>k. ?m k = (if \<forall>q\<in>set points. q k \<noteq> None
                        then Some (projr (bezier t (map (\<lambda>q. prop_of q k) points)))
                        else p k)"
  proof
    fix k
    show "?m k = (if \<forall>q\<in>set points. q k \<noteq> None
                        then Some (projr (bezier t (map (\<lambda>q. prop_of q k) points)))
                        else p k)"
    proof (cases "\<forall>q\<in>set points. q k \<noteq> None")
      case True
      have eq: "?m k = Some (projr (bezier t (map (\<lambda>q. prop_of q k) points)))"
        unfolding bezier_common_props [OF assms(1)] using True
        by (simp add: Object_assign_def)
      show ?thesis
        by (subst if_P [OF True]) (rule eq)
    next
      case False
      then have "k \<notin> {k. \<forall>q\<in>set points. q k \<noteq> None}"
        by simp
      then have eq: "?m k = p k"
        unfolding bezier_common_props [OF assms(1)]
        by (simp only: Object_assign_def if_False option.case)
      show ?thesis
        by (subst if_not_P [OF False]) (rule eq)
    qed
  qed
  show ?thesis
  proof (intro exI conjI)
    show "Stroke_bezier this points = Inr ?s" by (rule s)
    show "evaluate ?s t = Inr ?m" by (rule e)
    show "\<forall>k. ?m k = (if \<forall>q\<in>set points. q k \<noteq> None
                        then Some (projr (bezier t (map (\<lambda>q. prop_of q k) points)))
                        else p k)" by (rule all)
  qed
qed

lemma bezier_field_cases:
  assumes "points \<noteq> []"
    and m: "m k = (if \<forall>q\<in>set points. q k \<noteq> None
                   then Some (projr (bezier t (map (\<lambda>q. prop_of q k) points)))
                   else p k)"
  shows "(\<forall>q\<in>set points. \<exists>v. q k = Some (Number v)) \<longrightarrow>
           m k = Some (Number (de_casteljau t (map (\<lambda>q. ToNumber (prop_of q k)) points)))"
    and "(\<exists>q\<in>set points. q k = None) \<longrightarrow> m k = p k"
    and "(\<forall>q\<in>set points. q k \<noteq> None) \<and> (\<exists>q\<in>set points. q k = Some Undefined) \<longrightarrow>
           m k = Some (if length points = 1 then Undefined else Number NaN)"
proof -
  show "(\<forall>q\<in>set points. \<exists>v. q k = Some (Number v)) \<longrightarrow>
           m k = Some (Number (de_casteljau t (map (\<lambda>q. ToNumber (prop_of q k)) points)))"
  proof
    assume a: "\<forall>q\<in>set points. \<exists>v. q k = Some (Number v)"
    then have all: "\<forall>q\<in>set points. q k \<noteq> None"
      by auto
    have "map (\<lambda>q. prop_of q k) points = map Number (map (\<lambda>q. ToNumber (prop_of q k)) points)"
      using a by (auto simp: prop_of_def)
    then have "bezier t (map (\<lambda>q. prop_of q k) points)
        = Inr (Number (de_casteljau t (map (\<lambda>q. ToNumber (prop_of q k)) points)))"
      using assms(1) by (simp only: bezier_de_casteljau [of "map (\<lambda>q. ToNumber (prop_of q k)) points" t]
          map_is_Nil_conv not_False_eq_True)
    then show "m k = Some (Number (de_casteljau t (map (\<lambda>q. ToNumber (prop_of q k)) points)))"
      by (subst m, subst if_P [OF all]) simp
  qed
  show "(\<exists>q\<in>set points. q k = None) \<longrightarrow> m k = p k"
  proof
    assume "\<exists>q\<in>set points. q k = None"
    then have n: "\<not> (\<forall>q\<in>set points. q k \<noteq> None)"
      by simp
    show "m k = p k"
      by (subst m, subst if_not_P [OF n]) (rule refl)
  qed
  show "(\<forall>q\<in>set points. q k \<noteq> None) \<and> (\<exists>q\<in>set points. q k = Some Undefined) \<longrightarrow>
           m k = Some (if length points = 1 then Undefined else Number NaN)"
  proof
    assume a: "(\<forall>q\<in>set points. q k \<noteq> None) \<and> (\<exists>q\<in>set points. q k = Some Undefined)"
    then have all: "\<forall>q\<in>set points. q k \<noteq> None"
      by simp
    from a obtain q0 where q0: "q0 \<in> set points" "q0 k = Some Undefined"
      by blast
    then have "prop_of q0 k = Undefined"
      by simp
    with q0(1) have u: "Undefined \<in> set (map (\<lambda>q. prop_of q k) points)"
      by force
    have "projr (bezier t (map (\<lambda>q. prop_of q k) points))
        = (if length points = 1 then Undefined else Number NaN)"
    proof (cases "length points = 1")
      case True
      then obtain q where q: "points = [q]"
        by (cases points) auto
      with u have "prop_of q k = Undefined"
        by simp
      then show ?thesis
        unfolding q by (subst bezier.simps) simp
    next
      case False
      with assms(1) have "2 \<le> length (map (\<lambda>q. prop_of q k) points)"
        by (cases points; cases "tl points") auto
      from bezier_undefined [OF this u, of t] False show ?thesis
        by simp
    qed
    then show "m k = Some (if length points = 1 then Undefined else Number NaN)"
      by (subst m, subst if_P [OF all]) simp
  qed
qed

text \<open>
  C4, as the code has it. For every parent curve that evaluates to the sample \<open>p\<close> at
  \<open>t\<close> and every non-empty list of control points, \<open>bezier\<close> returns a curve whose
  sample at \<open>t\<close> has, for each field: the recursive De Casteljau interpolation of the
  control points' values when every control point holds a number for the field; the
  parent's field, untouched, when some control point has no such property; and, when
  every control point has the property but one of them holds \<open>undefined\<close> for it,
  \<open>NaN\<close> (or \<open>undefined\<close>, for a single control point) and not the parent's field.
  \<open>lerp(t, a, b)\<close> is \<open>(1 - t)a + tb\<close> for all reals, with no clamping of \<open>t\<close>.
\<close>

theorem bezier_fields:
  assumes "points \<noteq> []" and "evaluate this t = Inr p"
  shows "(\<exists>s m. Stroke_bezier this points = Inr s \<and> evaluate s t = Inr m \<and>
           (\<forall>k. ((\<forall>q\<in>set points. \<exists>v. q k = Some (Number v)) \<longrightarrow>
                    m k = Some (Number (de_casteljau t
                                  (map (\<lambda>q. ToNumber (prop_of q k)) points))))
               \<and> ((\<exists>q\<in>set points. q k = None) \<longrightarrow> m k = p k)
               \<and> ((\<forall>q\<in>set points. q k \<noteq> None) \<and> (\<exists>q\<in>set points. q k = Some Undefined) \<longrightarrow>
                    m k = Some (if length points = 1 then Undefined else Number NaN))))
       \<and> lerp (Num u) (Num a) (Num b) = Num ((1 - u) * a + u * b)"
proof
  obtain s m where s: "Stroke_bezier this points = Inr s" and e: "evaluate s t = Inr m"
    and m: "\<And>k. m k = (if \<forall>q\<in>set points. q k \<noteq> None
                        then Some (projr (bezier t (map (\<lambda>q. prop_of q k) points)))
                        else p k)"
    using bezier_sample [OF assms] by blast
  show "\<exists>s m. Stroke_bezier this points = Inr s \<and> evaluate s t = Inr m \<and>
           (\<forall>k. ((\<forall>q\<in>set points. \<exists>v. q k = Some (Number v)) \<longrightarrow>
                    m k = Some (Number (de_casteljau t
                                  (map (\<lambda>q. ToNumber (prop_of q k)) points))))
               \<and> ((\<exists>q\<in>set points. q k = None) \<longrightarrow> m k = p k)
               \<and> ((\<forall>q\<in>set points. q k \<noteq> None) \<and> (\<exists>q\<in>set points. q k = Some Undefined) \<longrightarrow>
                    m k = Some (if length points = 1 then Undefined else Number NaN)))"
  proof (intro exI conjI allI)
    show "Stroke_bezier this points = Inr s" by (rule s)
    show "evaluate s t = Inr m" by (rule e)
    fix k
    show "(\<forall>q\<in>set points. \<exists>v. q k = Some (Number v)) \<longrightarrow>
           m k = Some (Number (de_casteljau t (map (\<lambda>q. ToNumber (prop_of q k)) points)))"
      by (rule bezier_field_cases(1) [OF assms(1) m])
    show "(\<exists>q\<in>set points. q k = None) \<longrightarrow> m k = p k"
      by (rule bezier_field_cases(2) [OF assms(1) m])
    show "(\<forall>q\<in>set points. q k \<noteq> None) \<and> (\<exists>q\<in>set points. q k = Some Undefined) \<longrightarrow>
           m k = Some (if length points = 1 then Undefined else Number NaN)"
      by (rule bezier_field_cases(3) [OF assms(1) m])
  qed
  show "lerp (Num u) (Num a) (Num b) = Num ((1 - u) * a + u * b)"
    by (simp add: lerp_def)
qed

theorem bezier_fields_witness:
  "[[Fx \<mapsto> Number (Num 0), Fy \<mapsto> Number (Num 0), Fr \<mapsto> Number (Num 1)],
    [Fx \<mapsto> Number (Num 10), Fy \<mapsto> Number (Num 0)]] \<noteq> []
   \<and> evaluate (Stroke_fix Stroke_new [Fr \<mapsto> Number (Num 0.25), Fw \<mapsto> Number (Num 2)]) (Num 0.5)
       = Inr [Fr \<mapsto> Number (Num 0.25), Fw \<mapsto> Number (Num 2)]
   \<and> (\<exists>s m. Stroke_bezier (Stroke_fix Stroke_new [Fr \<mapsto> Number (Num 0.25), Fw \<mapsto> Number (Num 2)])
              [[Fx \<mapsto> Number (Num 0), Fy \<mapsto> Number (Num 0), Fr \<mapsto> Number (Num 1)],
               [Fx \<mapsto> Number (Num 10), Fy \<mapsto> Number (Num 0)]] = Inr s
          \<and> evaluate s (Num 0.5) = Inr m
          \<and> m Fx = Some (Number (Num 5)) \<and> m Fy = Some (Number (Num 0))
          \<and> m Fr = Some (Number (Num 0.25)) \<and> m Fw = Some (Number (Num 2)) \<and> m Fg = None)"
proof -
  let ?pts = "[[Fx \<mapsto> Number (Num 0), Fy \<mapsto> Number (Num 0), Fr \<mapsto> Number (Num 1)],
               [Fx \<mapsto> Number (Num 10), Fy \<mapsto> Number (Num 0)]]"
  let ?par = "Stroke_fix Stroke_new [Fr \<mapsto> Number (Num 0.25), Fw \<mapsto> Number (Num 2)]"
  let ?p = "[Fr \<mapsto> Number (Num 0.25), Fw \<mapsto> Number (Num 2)]"
  have h1: "?pts \<noteq> []" by simp
  have h2: "evaluate ?par (Num 0.5) = Inr ?p" by simp
  note th = bezier_fields [OF h1 h2, THEN conjunct1]
  from th obtain s m where s: "Stroke_bezier ?par ?pts = Inr s" and e: "evaluate s (Num 0.5) = Inr m"
    and m: "\<forall>k. ((\<forall>q\<in>set ?pts. \<exists>v. q k = Some (Number v)) \<longrightarrow>
                    m k = Some (Number (de_casteljau (Num 0.5)
                                  (map (\<lambda>q. ToNumber (prop_of q k)) ?pts))))
               \<and> ((\<exists>q\<in>set ?pts. q k = None) \<longrightarrow> m k = ?p k)
               \<and> ((\<forall>q\<in>set ?pts. q k \<noteq> None) \<and> (\<exists>q\<in>set ?pts. q k = Some Undefined) \<longrightarrow>
                    m k = Some (if length ?pts = 1 then Undefined else Number NaN))"
    by (elim exE conjE)
  have nx: "\<forall>q\<in>set ?pts. \<exists>v. q Fx = Some (Number v)"
    and ny: "\<forall>q\<in>set ?pts. \<exists>v. q Fy = Some (Number v)"
    and mr: "\<exists>q\<in>set ?pts. q Fr = None" and mw: "\<exists>q\<in>set ?pts. q Fw = None"
    and mg: "\<exists>q\<in>set ?pts. q Fg = None"
    by auto
  have dx: "de_casteljau (Num 0.5) (map (\<lambda>q. ToNumber (prop_of q Fx)) ?pts) = Num 5"
    by (simp add: de_casteljau.simps(3) lerp_def)
  have dy: "de_casteljau (Num 0.5) (map (\<lambda>q. ToNumber (prop_of q Fy)) ?pts) = Num 0"
    by (simp add: de_casteljau.simps(3) lerp_def)
  have "m Fx = Some (Number (Num 5))"
    using m [THEN spec [of _ Fx], THEN conjunct1, THEN mp, OF nx] unfolding dx .
  moreover have "m Fy = Some (Number (Num 0))"
    using m [THEN spec [of _ Fy], THEN conjunct1, THEN mp, OF ny] unfolding dy .
  moreover have "m Fr = Some (Number (Num 0.25))"
    using m [THEN spec [of _ Fr], THEN conjunct2, THEN conjunct1, THEN mp, OF mr] by simp
  moreover have "m Fw = Some (Number (Num 2))"
    using m [THEN spec [of _ Fw], THEN conjunct2, THEN conjunct1, THEN mp, OF mw] by simp
  moreover have "m Fg = None"
    using m [THEN spec [of _ Fg], THEN conjunct2, THEN conjunct1, THEN mp, OF mg] by simp
  ultimately show ?thesis
    using h1 h2 s e by (intro conjI exI [of _ s] exI [of _ m])
qed

theorem bezier_undefined_counterexample:
  "prop_of [Fx \<mapsto> Undefined, Fy \<mapsto> Number (Num 1)] Fx = Undefined
   \<and> evaluate (Stroke_fix Stroke_new [Fx \<mapsto> Number (Num 9)]) (Num 0.5) = Inr [Fx \<mapsto> Number (Num 9)]
   \<and> (\<exists>s m. Stroke_bezier (Stroke_fix Stroke_new [Fx \<mapsto> Number (Num 9)])
              [[Fx \<mapsto> Undefined, Fy \<mapsto> Number (Num 1)],
               [Fx \<mapsto> Number (Num 2), Fy \<mapsto> Number (Num 3)]] = Inr s
          \<and> evaluate s (Num 0.5) = Inr m
          \<and> m Fx = Some (Number NaN) \<and> m Fx \<noteq> Some (Number (Num 9))
          \<and> m Fy = Some (Number (Num 2)))"
proof -
  let ?pts = "[[Fx \<mapsto> Undefined, Fy \<mapsto> Number (Num 1)],
               [Fx \<mapsto> Number (Num 2), Fy \<mapsto> Number (Num 3)]]"
  let ?par = "Stroke_fix Stroke_new [Fx \<mapsto> Number (Num 9)]"
  have h1: "?pts \<noteq> []" by simp
  have h2: "evaluate ?par (Num 0.5) = Inr [Fx \<mapsto> Number (Num 9)]" by simp
  from bezier_sample [OF h1 h2]
  obtain s m where s: "Stroke_bezier ?par ?pts = Inr s" and e: "evaluate s (Num 0.5) = Inr m"
    and m: "\<And>k. m k = (if \<forall>q\<in>set ?pts. q k \<noteq> None
                        then Some (projr (bezier (Num 0.5) (map (\<lambda>q. prop_of q k) ?pts)))
                        else [Fx \<mapsto> Number (Num 9)] k)"
    by blast
  have bx: "bezier t [Undefined, Number (Num 2)] = Inr (Number NaN)" for t
    by (rule bezier_undefined) simp_all
  have by1: "bezier (Num (1 / 2)) [Number (Num 1), Number (Num 3)] = Inr (Number (Num 2))"
    using bezier_de_casteljau [of "[Num 1, Num 3]" "Num (1 / 2)"]
    by (simp add: de_casteljau.simps(3) lerp_def)
  have "m Fx = Some (Number NaN)"
    by (subst m) (simp add: bx)
  moreover have "m Fy = Some (Number (Num 2))"
    by (subst m) (simp add: by1)
  ultimately show ?thesis
    using s e h2 by auto
qed

section \<open>Ellipse angle correction\<close>

lemma slideEllipse_t_Num:
  "slideEllipse_t (Num t) = Num (t - of_int \<lfloor>t + 1/2\<rfloor>)"
proof -
  define f where "f = t - of_int (trunc t)"
  have f: "- 1 < f" "f < 1"
    unfolding f_def trunc_def by (simp_all; linarith)+
  have pos: "0 \<le> f + 15 / 10" using f by simp
  have "\<lfloor>f + 15 / 10\<rfloor> = \<lfloor>t + 15 / 10\<rfloor> - trunc t"
    unfolding f_def by linarith
  then have "f + 15 / 10 - of_int \<lfloor>f + 15 / 10\<rfloor> - 5 / 10 = t + 1 - of_int \<lfloor>t + 15 / 10\<rfloor>"
    by (simp add: f_def)
  also have "\<lfloor>t + 15 / 10\<rfloor> = \<lfloor>t + 1 / 2\<rfloor> + 1"
    by linarith
  finally have eq: "f + 15 / 10 - of_int \<lfloor>f + 15 / 10\<rfloor> - 5 / 10 = t - of_int \<lfloor>t + 1 / 2\<rfloor>"
    by simp
  have r1: "remainder (Num t) (Num 1) = Num f"
    by (simp add: f_def)
  have r2: "remainder (Num (f + 15 / 10)) (Num 1) = Num (f + 15 / 10 - of_int \<lfloor>f + 15 / 10\<rfloor>)"
    using pos by (simp add: trunc_def)
  have "slideEllipse_t (Num t) = remainder (Num f + Num 1.5) (Num 1) - Num 0.5"
    unfolding slideEllipse_t_def r1 ..
  also have "Num f + Num 1.5 = Num (f + 15 / 10)"
    by simp
  also have "remainder (Num (f + 15 / 10)) (Num 1) - Num 0.5
      = Num (f + 15 / 10 - of_int \<lfloor>f + 15 / 10\<rfloor> - 5 / 10)"
    unfolding r2 by simp
  finally show ?thesis
    unfolding eq .
qed

lemma arctan_tan_flip:
  fixes r x :: real
  assumes "0 < r" and "tan x \<noteq> 0"
  shows "arctan (tan x * r) = sgn (tan x) * pi / 2 - arctan (tan (pi / 2 - x) / r)"
proof -
  have nz: "tan x * r \<noteq> 0" using assms by simp
  have "sgn (tan x * r) = sgn (tan x)"
    using assms(1) by (simp add: sgn_mult)
  moreover have "1 / (tan x * r) = tan (pi / 2 - x) / r"
    unfolding tan_cot by (simp add: divide_inverse)
  ultimately show ?thesis
    using arctan_inverse [OF nz] by simp
qed

lemma tan_pos_first: "0 < u \<Longrightarrow> u < 1 / 4 \<Longrightarrow> 0 < tan (u * 2 * pi)" for u :: real
proof (rule tan_gt_zero)
  assume a: "0 < u" "u < 1 / 4"
  then show "0 < u * 2 * pi" by simp
  have "u * pi < (1 / 4) * pi"
    using a(2) pi_gt_zero by (rule mult_strict_right_mono)
  then show "u * 2 * pi < pi / 2" by simp
qed

lemma tan_neg_second: "1 / 4 < u \<Longrightarrow> u < 1 / 2 \<Longrightarrow> tan (u * 2 * pi) < 0" for u :: real
proof -
  assume a: "1 / 4 < u" "u < 1 / 2"
  have "(1 / 4) * pi < u * pi"
    using a(1) pi_gt_zero by (rule mult_strict_right_mono)
  moreover have "u * pi < (1 / 2) * pi"
    using a(2) pi_gt_zero by (rule mult_strict_right_mono)
  ultimately have "- pi / 2 < u * 2 * pi - pi" "u * 2 * pi - pi < 0"
    by linarith+
  then have "tan (u * 2 * pi - pi) < 0"
    by (rule tan_less_zero)
  moreover have "tan (u * 2 * pi - pi) = tan (u * 2 * pi)"
    using tan_periodic_pi [of "u * 2 * pi - pi"] by simp
  ultimately show ?thesis by simp
qed

lemma div_two_pi: "(c * pi / 2 - b) / (2 * pi) = c / 4 - b / (2 * pi)" for b c :: real
  by (simp add: field_simps)

lemma quarter_flip:
  fixes r u :: real
  assumes "0 < r" and "0 < u" and "u < 1 / 2" and "u \<noteq> 1 / 4"
  shows "arctan (tan (u * 2 * pi) * r) / (2 * pi) + (if 1 / 4 < \<bar>u\<bar> then sgn u / 2 else 0)
         = 1 / 4 - arctan (tan (pi / 2 - u * 2 * pi) / r) / (2 * pi)"
proof (cases "u < 1 / 4")
  case True
  then have t: "0 < tan (u * 2 * pi)" using assms(2) by (simp add: tan_pos_first)
  then have "arctan (tan (u * 2 * pi) * r) = 1 * pi / 2 - arctan (tan (pi / 2 - u * 2 * pi) / r)"
    using arctan_tan_flip [OF assms(1), of "u * 2 * pi"] by simp
  then have "arctan (tan (u * 2 * pi) * r) / (2 * pi)
      = 1 / 4 - arctan (tan (pi / 2 - u * 2 * pi) / r) / (2 * pi)"
    by (simp only: div_two_pi)
  moreover have "\<not> 1 / 4 < \<bar>u\<bar>" using True assms(2) by simp
  ultimately show ?thesis by simp
next
  case False
  then have u: "1 / 4 < u" using assms(4) by simp
  then have t: "tan (u * 2 * pi) < 0" using assms(3) by (simp add: tan_neg_second)
  then have "arctan (tan (u * 2 * pi) * r) = (- 1) * pi / 2 - arctan (tan (pi / 2 - u * 2 * pi) / r)"
    using arctan_tan_flip [OF assms(1), of "u * 2 * pi"] by simp
  then have "arctan (tan (u * 2 * pi) * r) / (2 * pi)
      = (- 1) / 4 - arctan (tan (pi / 2 - u * 2 * pi) / r) / (2 * pi)"
    by (simp only: div_two_pi)
  moreover have "1 / 4 < \<bar>u\<bar>" "sgn u = 1" using u by simp_all
  ultimately show ?thesis by simp
qed

lemma quarter_limit:
  fixes r :: real
  assumes "0 < r"
  shows "(angle_formula r \<longlongrightarrow> 1 / 4) (at (1 / 4))"
proof -
  let ?h = "\<lambda>u::real. 1 / 4 - arctan (tan (pi / 2 - u * 2 * pi) / r) / (2 * pi)"
  have "isCont ?h (1 / 4)"
    using assms by (intro continuous_intros) simp_all
  then have "(?h \<longlongrightarrow> ?h (1 / 4)) (at (1 / 4))"
    by (simp only: isCont_def)
  then have lim: "(?h \<longlongrightarrow> 1 / 4) (at (1 / 4))"
    by simp
  have "\<forall>\<^sub>F u in at (1 / 4). ?h u = angle_formula r u"
    unfolding eventually_at
  proof (intro exI [of _ "1 / 4"] conjI ballI impI)
    fix u :: real
    assume "u \<noteq> 1 / 4 \<and> dist u (1 / 4) < 1 / 4"
    then have "\<bar>u - 1 / 4\<bar> < 1 / 4" "u \<noteq> 1 / 4"
      by (simp_all add: dist_real_def)
    then have "0 < u" "u < 1 / 2" "u \<noteq> 1 / 4"
      by linarith+
    then show "?h u = angle_formula r u"
      using quarter_flip [OF assms, of u] by (simp add: angle_formula_def)
  qed simp
  with lim show ?thesis
    by (rule Lim_transform_eventually)
qed

lemma angle_formula_odd: "angle_formula r (- u) = - angle_formula r u"
  by (simp add: angle_formula_def sgn_minus arctan_minus)

lemma quarter_limit_neg:
  fixes r :: real
  assumes "0 < r"
  shows "(angle_formula r \<longlongrightarrow> - (1 / 4)) (at (- (1 / 4)))"
proof -
  let ?h = "\<lambda>u::real. - (1 / 4 - arctan (tan (pi / 2 - (- u) * 2 * pi) / r) / (2 * pi))"
  have "isCont ?h (- (1 / 4))"
    using assms by (intro continuous_intros) simp_all
  then have "(?h \<longlongrightarrow> ?h (- (1 / 4))) (at (- (1 / 4)))"
    by (simp only: isCont_def)
  then have lim: "(?h \<longlongrightarrow> - (1 / 4)) (at (- (1 / 4)))"
    by simp
  have "\<forall>\<^sub>F u in at (- (1 / 4)). ?h u = angle_formula r u"
    unfolding eventually_at
  proof (intro exI [of _ "1 / 4"] conjI ballI impI)
    fix u :: real
    assume "u \<noteq> - (1 / 4) \<and> dist u (- (1 / 4)) < 1 / 4"
    then have "\<bar>u + 1 / 4\<bar> < 1 / 4" "u \<noteq> - (1 / 4)"
      by (simp_all add: dist_real_def)
    then have "0 < - u" "- u < 1 / 2" "- u \<noteq> 1 / 4"
      by linarith+
    then have "angle_formula r (- u) = 1 / 4 - arctan (tan (pi / 2 - (- u) * 2 * pi) / r) / (2 * pi)"
      unfolding angle_formula_def by (rule quarter_flip [OF assms])
    then have "- angle_formula r u = 1 / 4 - arctan (tan (pi / 2 - (- u) * 2 * pi) / r) / (2 * pi)"
      by (simp only: angle_formula_odd)
    then show "?h u = angle_formula r u"
      by linarith
  qed simp
  with lim show ?thesis
    by (rule Lim_transform_eventually)
qed

lemma arctan_le_self:
  fixes x :: real
  assumes "0 \<le> x"
  shows "arctan x \<le> x"
proof -
  have "0 - arctan 0 \<le> x - arctan x"
  proof (rule DERIV_nonneg_imp_nondecreasing [of 0 x "\<lambda>y. y - arctan y"])
    show "0 \<le> x" by (rule assms)
    fix y :: real
    have "((\<lambda>y. y - arctan y) has_real_derivative (1 - inverse (1 + y\<^sup>2))) (at y)"
      by (auto intro!: derivative_eq_intros)
    moreover have "0 \<le> 1 - inverse (1 + y\<^sup>2)"
    proof -
      have "1 \<le> 1 + y\<^sup>2" by simp
      then have "inverse (1 + y\<^sup>2) \<le> 1"
        by (simp add: inverse_le_1_iff)
      then show ?thesis by simp
    qed
    ultimately show "\<exists>d. ((\<lambda>y. y - arctan y) has_real_derivative d) (at y) \<and> 0 \<le> d"
      by blast
  qed
  then show ?thesis by simp
qed

lemma cos_quarter:
  fixes u :: real
  assumes "- (1 / 2) \<le> u" and "u < 1 / 2" and "cos (u * 2 * pi) = 0"
  shows "\<bar>u\<bar> = 1 / 4"
proof -
  from assms(3) obtain i :: int where i: "odd i" "u * 2 * pi = of_int i * (pi / 2)"
    unfolding cos_zero_iff_int by blast
  have "u * 2 * pi = (of_int i / 4) * 2 * pi"
    using i(2) by simp
  then have u: "u = of_int i / 4"
    by simp
  with assms(1,2) have "- 2 \<le> i" "i < 2"
    by simp_all
  with i(1) have "i = 1 \<or> i = - 1"
    by (cases "i = 0") (auto, presburger)
  then show ?thesis
    unfolding u by auto
qed

lemma sin_half:
  fixes u :: real
  assumes "- (1 / 2) < u" and "u < 1 / 2" and "sin (u * 2 * pi) = 0"
  shows "u = 0"
proof -
  from assms(3) obtain i :: int where i: "u * 2 * pi = of_int i * pi"
    unfolding sin_zero_iff_int2 by blast
  then have u: "u = of_int i / 2"
    by simp
  with assms(1,2) have "- 1 < i" "i < 1"
    by simp_all
  then have "i = 0" by simp
  then show ?thesis
    unfolding u by simp
qed

lemma tan_double_regular:
  fixes u :: real
  assumes "- (1 / 2) < u" and "u < 1 / 2" and "\<bar>u\<bar> \<noteq> 1 / 4"
  shows "tan_double (u * 2 * pi) = tan (u * 2 * pi)"
proof -
  have c: "cos (u * 2 * pi) \<noteq> 0"
    using cos_quarter [of u] assms by auto
  have s: "\<not> (sin (u * 2 * pi) = 0 \<and> u * 2 * pi \<noteq> 0)"
    using sin_half [of u] assms by auto
  show ?thesis
    unfolding tan_double_def if_not_P [OF c] if_not_P [OF s] ..
qed

lemma tan_double_quarter:
  "tan_double (1 / 4 * 2 * pi) = tan_half_pi" "tan_double (- (1 / 4) * 2 * pi) = - tan_half_pi"
  by (simp_all add: tan_double_def)

lemma slideEllipse_Num:
  "slideEllipse (Num r) (Num t) =
     Num (arctan (tan_double ((t - of_int \<lfloor>t + 1 / 2\<rfloor>) * 2 * pi) * r) / (2 * pi)
          + (if 1 / 4 < \<bar>t - of_int \<lfloor>t + 1 / 2\<rfloor>\<bar> then sgn (t - of_int \<lfloor>t + 1 / 2\<rfloor>) / 2 else 0))"
  by (simp add: slideEllipse_def slideEllipse_t_Num Let_def Math_PI_def)

lemma slideEllipse_regular:
  fixes t :: real
  defines "u \<equiv> t - of_int \<lfloor>t + 1 / 2\<rfloor>"
  assumes "\<bar>u\<bar> \<noteq> 1 / 4" and "u \<noteq> - (1 / 2)"
  shows "slideEllipse (Num r) (Num t) = Num (angle_formula r u)"
proof -
  have "- (1 / 2) \<le> u" "u < 1 / 2"
    unfolding u_def by linarith+
  with assms(3) have "- (1 / 2) < u" "u < 1 / 2"
    by simp_all
  then have "tan_double (u * 2 * pi) = tan (u * 2 * pi)"
    using assms(2) by (rule tan_double_regular)
  then show ?thesis
    unfolding slideEllipse_Num u_def [symmetric] angle_formula_def by simp
qed

lemma slideEllipse_near:
  fixes t c :: real
  assumes "\<bar>t - c\<bar> < 1 / 4" and "\<bar>c\<bar> = 1 / 4" and "t \<noteq> c"
  shows "slideEllipse (Num r) (Num t) = Num (angle_formula r t)"
proof -
  have f: "\<lfloor>t + 1 / 2\<rfloor> = 0" using assms by linarith
  have "\<bar>t\<bar> \<noteq> 1 / 4" "t \<noteq> - (1 / 2)"
    using assms by linarith+
  then show ?thesis
    using slideEllipse_regular [of t r] by (simp add: f)
qed

lemma slideEllipse_limit:
  fixes r c l :: real
  assumes lim: "(angle_formula r \<longlongrightarrow> l) (at c)" and c: "\<bar>c\<bar> = 1 / 4" and e: "0 < e"
  shows "\<exists>d>0. \<forall>t. t \<noteq> c \<and> \<bar>t - c\<bar> < d \<longrightarrow>
           (\<exists>v. slideEllipse (Num r) (Num t) = Num v \<and> \<bar>v - l\<bar> < e)"
proof -
  from lim e have "\<forall>\<^sub>F u in at c. dist (angle_formula r u) l < e"
    by (simp add: tendsto_iff)
  then obtain d where d: "0 < d"
    and close: "\<And>u. u \<noteq> c \<Longrightarrow> dist u c < d \<Longrightarrow> dist (angle_formula r u) l < e"
    unfolding eventually_at by auto
  show ?thesis
  proof (rule exI [of _ "min d (1 / 4)"], rule conjI, goal_cases)
    case 1
    show ?case using d by simp
  next
    case 2
    show ?case
    proof (rule allI, rule impI)
    fix t assume t: "t \<noteq> c \<and> \<bar>t - c\<bar> < min d (1 / 4)"
    have "slideEllipse (Num r) (Num t) = Num (angle_formula r t)"
      by (rule slideEllipse_near [of t c]) (use t c in simp_all)
    moreover have "\<bar>angle_formula r t - l\<bar> < e"
      using close [of t] t by (simp add: dist_real_def)
    ultimately show "\<exists>v. slideEllipse (Num r) (Num t) = Num v \<and> \<bar>v - l\<bar> < e"
      by blast
    qed
  qed
qed

lemma slideEllipse_quarter:
  "slideEllipse (Num r) (Num (1 / 4)) = Num (arctan (tan_half_pi * r) / (2 * pi))"
  "slideEllipse (Num r) (Num (- (1 / 4))) = Num (- (arctan (tan_half_pi * r) / (2 * pi)))"
proof -
  have f: "\<lfloor>(1 / 4 :: real) + 1 / 2\<rfloor> = 0" "\<lfloor>- (1 / 4 :: real) + 1 / 2\<rfloor> = 0"
    by linarith+
  show "slideEllipse (Num r) (Num (1 / 4)) = Num (arctan (tan_half_pi * r) / (2 * pi))"
    unfolding slideEllipse_Num f using tan_double_quarter(1) by simp
  show "slideEllipse (Num r) (Num (- (1 / 4))) = Num (- (arctan (tan_half_pi * r) / (2 * pi)))"
    unfolding slideEllipse_Num f using tan_double_quarter(2) by (simp add: arctan_minus)
qed

lemma quarter_value:
  fixes r :: real
  assumes "0 < r"
  defines "w \<equiv> arctan (tan_half_pi * r) / (2 * pi)"
  shows "0 < 1 / 4 - w" and "1 / 4 - w < 1 / (tan_half_pi * r)"
proof -
  define z where "z = tan_half_pi * r"
  have z: "0 < z"
    unfolding z_def tan_half_pi_def using assms(1) by simp
  have inv: "arctan (1 / z) = pi / 2 - arctan z"
    using arctan_inverse [of z] z by simp
  have w: "1 / 4 - w = arctan (1 / z) / (2 * pi)"
    unfolding w_def z_def [symmetric] inv by (simp add: field_simps)
  have p: "0 < arctan (1 / z)"
    using z by (simp add: zero_less_arctan_iff)
  then show "0 < 1 / 4 - w"
    unfolding w by simp
  have le: "arctan (1 / z) \<le> 1 / z"
    using z by (intro arctan_le_self) simp
  have iz: "0 < 1 / z" using z by simp
  have p2: "1 < 2 * pi"
    using pi_ge_two by linarith
  have "arctan (1 / z) / (2 * pi) \<le> (1 / z) / (2 * pi)"
    using le p2 by (intro divide_right_mono) simp_all
  also have "(1 / z) / (2 * pi) < (1 / z) / 1"
    using iz p2 by (intro divide_strict_left_mono) simp_all
  finally have "arctan (1 / z) / (2 * pi) < 1 / z"
    by simp
  then show "1 / 4 - w < 1 / (tan_half_pi * r)"
    unfolding w z_def .
qed

lemma angle_formula_zero:
  fixes s :: real
  assumes "0 < s"
  shows "angle_formula 0 s = (if 1 / 4 < s then 1 / 2 else 0)"
  using assms by (simp add: angle_formula_def)

lemma angle_formula_neg:
  fixes s :: real
  shows "0 < s \<Longrightarrow> s < 1 / 4 \<Longrightarrow> angle_formula (- 1) s = - s"
    and "1 / 4 < s \<Longrightarrow> s < 1 / 2 \<Longrightarrow> angle_formula (- 1) s = 1 - s"
proof -
  assume a: "0 < s" "s < 1 / 4"
  have "s * pi < (1 / 4) * pi"
    using a(2) pi_gt_zero by (rule mult_strict_right_mono)
  moreover have "0 < s * 2 * pi"
    using a(1) by simp
  ultimately have "- (pi / 2) < s * 2 * pi" "s * 2 * pi < pi / 2"
    using pi_gt_zero by linarith+
  then have "arctan (tan (s * 2 * pi)) = s * 2 * pi"
    by (rule arctan_tan)
  then show "angle_formula (- 1) s = - s"
    using a by (simp add: angle_formula_def arctan_minus)
next
  assume a: "1 / 4 < s" "s < 1 / 2"
  have "(1 / 4) * pi < s * pi"
    using a(1) pi_gt_zero by (rule mult_strict_right_mono)
  moreover have "s * pi < (1 / 2) * pi"
    using a(2) pi_gt_zero by (rule mult_strict_right_mono)
  ultimately have "- (pi / 2) < s * 2 * pi - pi" "s * 2 * pi - pi < pi / 2"
    by linarith+
  then have "arctan (tan (s * 2 * pi - pi)) = s * 2 * pi - pi"
    by (rule arctan_tan)
  moreover have "tan (s * 2 * pi - pi) = tan (s * 2 * pi)"
    using tan_periodic_pi [of "s * 2 * pi - pi"] by simp
  ultimately have "arctan (tan (s * 2 * pi)) = s * 2 * pi - pi"
    by simp
  then have "arctan (tan (s * 2 * pi) * (- 1)) / (2 * pi) = 1 / 2 - s"
    by (simp add: arctan_minus field_simps)
  then show "angle_formula (- 1) s = 1 - s"
    using a unfolding angle_formula_def by simp
qed

lemma no_limit_at_quarter:
  fixes fl fr :: "real \<Rightarrow> real"
  assumes left: "\<And>s. 1 / 8 \<le> s \<Longrightarrow> s < 1 / 4 \<Longrightarrow> slideEllipse (Num r) (Num s) = Num (fl s)"
    and right: "\<And>s. 1 / 4 < s \<Longrightarrow> s \<le> 3 / 8 \<Longrightarrow> slideEllipse (Num r) (Num s) = Num (fr s)"
    and gap: "\<And>s s'. 1 / 8 \<le> s \<Longrightarrow> s < 1 / 4 \<Longrightarrow> 1 / 4 < s' \<Longrightarrow> s' \<le> 3 / 8 \<Longrightarrow>
                1 / 2 \<le> fr s' - fl s"
  shows "\<not> (\<exists>l. \<forall>e>0. \<exists>d>0. \<forall>s. s \<noteq> 1 / 4 \<and> \<bar>s - 1 / 4\<bar> < d \<longrightarrow>
              (\<exists>w. slideEllipse (Num r) (Num s) = Num w \<and> \<bar>w - l\<bar> < e))"
proof
  assume "\<exists>l. \<forall>e>0. \<exists>d>0. \<forall>s. s \<noteq> 1 / 4 \<and> \<bar>s - 1 / 4\<bar> < d \<longrightarrow>
              (\<exists>w. slideEllipse (Num r) (Num s) = Num w \<and> \<bar>w - l\<bar> < e)"
  then obtain l d where d: "0 < d"
    and close: "\<And>s. s \<noteq> 1 / 4 \<Longrightarrow> \<bar>s - 1 / 4\<bar> < d \<Longrightarrow>
              \<exists>w. slideEllipse (Num r) (Num s) = Num w \<and> \<bar>w - l\<bar> < 1 / 4"
    by (metis zero_less_divide_1_iff zero_less_numeral)
  define h where "h = min (d / 2) (1 / 8)"
  have h: "0 < h" "h < d" "h \<le> 1 / 8"
    using d by (simp_all add: h_def)
  have s1: "1 / 8 \<le> 1 / 4 - h" "1 / 4 - h < 1 / 4" and s2: "1 / 4 < 1 / 4 + h" "1 / 4 + h \<le> 3 / 8"
    using h by simp_all
  from close [of "1 / 4 - h"] h obtain w1 where
    "slideEllipse (Num r) (Num (1 / 4 - h)) = Num w1" "\<bar>w1 - l\<bar> < 1 / 4"
    by auto
  with left [OF s1] have w1: "\<bar>fl (1 / 4 - h) - l\<bar> < 1 / 4"
    by simp
  from close [of "1 / 4 + h"] h obtain w2 where
    "slideEllipse (Num r) (Num (1 / 4 + h)) = Num w2" "\<bar>w2 - l\<bar> < 1 / 4"
    by auto
  with right [OF s2] have w2: "\<bar>fr (1 / 4 + h) - l\<bar> < 1 / 4"
    by simp
  from gap [OF s1 s2] w1 w2 show False
    by linarith
qed




section \<open>Pixel compositing\<close>

text \<open>
  C9. For every pixel coordinate outside the buffer (\<open>x < 0\<close>, \<open>x \<ge> width\<close>,
  \<open>y < 0\<close> or \<open>y \<ge> height\<close>) and every colour, alpha and coverage, \<open>drawPixel\<close>
  returns the image it was given: nothing is written.
\<close>

theorem drawPixel_out_of_bounds:
  assumes "x < 0 \<or> real (width img) \<le> x \<or> y < 0 \<or> real (height img) \<le> y"
  shows "drawPixel img (Num x) (Num y) r g b a blend = img"
  using assms by (auto simp: drawPixel_def)

theorem drawPixel_out_of_bounds_witness:
  "((- 1::real) < 0 \<or> real (width \<lparr>width = 2, height = 1, data = [0, 0, 0, 0, 0, 0, 0, 0]\<rparr>) \<le> (- 1::real)
      \<or> (0::real) < 0 \<or> real (height \<lparr>width = 2, height = 1, data = [0, 0, 0, 0, 0, 0, 0, 0]\<rparr>) \<le> (0::real))
   \<and> drawPixel \<lparr>width = 2, height = 1, data = [0, 0, 0, 0, 0, 0, 0, 0]\<rparr>
         (Num (- 1)) (Num 0) (Num 1) (Num 1) (Num 1) (Num 1) (Num 1)
       = \<lparr>width = 2, height = 1, data = [0, 0, 0, 0, 0, 0, 0, 0]\<rparr>
   \<and> drawPixel \<lparr>width = 2, height = 1, data = [0, 0, 0, 0, 0, 0, 0, 0]\<rparr>
         (Num 0) (Num 1) (Num 1) (Num 1) (Num 1) (Num 1) (Num 1)
       = \<lparr>width = 2, height = 1, data = [0, 0, 0, 0, 0, 0, 0, 0]\<rparr>"
  using drawPixel_out_of_bounds [of "- 1" "\<lparr>width = 2, height = 1, data = [0, 0, 0, 0, 0, 0, 0, 0]\<rparr>" 0]
    drawPixel_out_of_bounds [of 0 "\<lparr>width = 2, height = 1, data = [0, 0, 0, 0, 0, 0, 0, 0]\<rparr>" 1]
  by simp

lemma typed_get_nat:
  "n < length xs \<Longrightarrow> typed_get xs (Num (real n)) = Num (real (unat (xs ! n)))"
  by simp

lemma typed_set_nat:
  "n < length xs \<Longrightarrow> typed_set xs (Num (real n)) v = xs[n := ToUint8Clamp v]"
  by simp

lemma pixel_index:
  assumes "length (data img) = 4 * width img * height img"
    and "px < width img" and "py < height img"
  shows "4 * (py * width img + px) + 3 < length (data img)"
proof -
  have "py * width img + px < (py + 1) * width img"
    using assms(2) by simp
  also have "\<dots> \<le> height img * width img"
    using assms(3) by (intro mult_right_mono) simp_all
  finally show ?thesis
    using assms(1) by (simp add: mult.commute)
qed

lemma pixel_offset:
  "(Num (real py) * Num (real w) + Num (real px)) * Num 4 + Num (real k)
     = Num (real (4 * (py * w + px) + k))"
  by (simp add: algebra_simps)

lemma pixel_offset0:
  "(Num (real py) * Num (real w) + Num (real px)) * Num 4 + Num 0
     = Num (real (4 * (py * w + px)))"
  using pixel_offset [of py w px 0] by simp

lemma pixel_offset1:
  "(Num (real py) * Num (real w) + Num (real px)) * Num 4 + Num 1
     = Num (real (4 * (py * w + px) + 1))"
  using pixel_offset [of py w px 1] by simp

lemma pixel_offset2:
  "(Num (real py) * Num (real w) + Num (real px)) * Num 4 + Num 2
     = Num (real (4 * (py * w + px) + 2))"
  using pixel_offset [of py w px 2] by simp

lemma pixel_offset3:
  "(Num (real py) * Num (real w) + Num (real px)) * Num 4 + Num 3
     = Num (real (4 * (py * w + px) + 3))"
  using pixel_offset [of py w px 3] by simp

lemmas pixel_offsets = pixel_offset0 pixel_offset1 pixel_offset2 pixel_offset3

lemma drawPixel_replace:
  assumes wf: "length (data img) = 4 * width img * height img"
    and px: "px < width img" and py: "py < height img"
    and ge: "real (unat (data img ! (4 * (py * width img + px) + 3))) / 255 \<le> blend"
  shows "drawPixel img (Num (real px)) (Num (real py)) r g b (Num a) (Num blend) =
           img\<lparr>data := (data img)
             [4 * (py * width img + px) := ToUint8Clamp (Math_floor (clamp01 r * Num 255)),
              4 * (py * width img + px) + 1 := ToUint8Clamp (Math_floor (clamp01 g * Num 255)),
              4 * (py * width img + px) + 2 := ToUint8Clamp (Math_floor (clamp01 b * Num 255)),
              4 * (py * width img + px) + 3 :=
                ToUint8Clamp (Num (of_int \<lfloor>min (max a 0) 1 * blend * 255\<rfloor>))]\<rparr>"
proof -
  let ?i = "4 * (py * width img + px)"
  note ix = pixel_index [OF wf px py]
  have in_bounds: "\<not> (Num (real px) < Num 0 \<or> Num (real px) \<ge> Num (real (width img))
      \<or> Num (real py) < Num 0 \<or> Num (real py) \<ge> Num (real (height img)))"
    using px py by simp
  have old: "typed_get (data img) (Num (real (?i + 3))) / Num 255
      = Num (real (unat (data img ! (?i + 3))) / 255)"
    using ix by (simp only: typed_get_nat) simp
  have a: "clamp01 (Num a) = Num (min (max a 0) 1)"
    by (simp add: clamp01_def clamp_Num max.commute)
  have c: "Num (real (unat (data img ! (?i + 3))) / 255) \<le> Num blend"
    using ge by simp
  have al: "Math_floor (Num (min (max a 0) 1) * Num blend * Num 255)
      = Num (of_int \<lfloor>min (max a 0) 1 * blend * 255\<rfloor>)"
    by simp
  have ixs: "?i < length (data img)" "?i + 1 < length (data img)" "?i + 2 < length (data img)"
    using ix by simp_all
  show ?thesis
    unfolding drawPixel_def if_not_P [OF in_bounds] Let_def pixel_offsets old a if_P [OF c] al
    using ix ixs by (simp only: typed_set_nat length_list_update)
qed

lemma byte_not_opaque: "(w :: 8 word) \<noteq> 255 \<Longrightarrow> real (unat w) / 255 \<noteq> 1"
proof -
  assume "w \<noteq> 255"
  then have "unat w \<noteq> 255"
    by (simp add: word_eq_iff_unsigned [where ?'a = nat])
  then have "real (unat w) \<noteq> real 255"
    unfolding of_nat_eq_iff .
  then show ?thesis
    by (simp del: of_nat_unat)
qed

lemma drawPixel_unchanged:
  assumes wf: "length (data img) = 4 * width img * height img"
    and px: "px < width img" and py: "py < height img"
    and lt: "blend < real (unat (data img ! (4 * (py * width img + px) + 3))) / 255"
    and ne: "data img ! (4 * (py * width img + px) + 3) \<noteq> 255"
  shows "drawPixel img (Num (real px)) (Num (real py)) r g b (Num a) (Num blend) = img"
proof -
  let ?i = "4 * (py * width img + px)"
  note ix = pixel_index [OF wf px py]
  have in_bounds: "\<not> (Num (real px) < Num 0 \<or> Num (real px) \<ge> Num (real (width img))
      \<or> Num (real py) < Num 0 \<or> Num (real py) \<ge> Num (real (height img)))"
    using px py by simp
  have old: "typed_get (data img) (Num (real (?i + 3))) / Num 255
      = Num (real (unat (data img ! (?i + 3))) / 255)"
    using ix by (simp only: typed_get_nat) simp
  have ne1: "real (unat (data img ! (?i + 3))) / 255 \<noteq> 1"
    using ne by (rule byte_not_opaque)
  have c: "\<not> Num (real (unat (data img ! (?i + 3))) / 255) \<le> Num blend"
    using lt by simp
  have c1: "\<not> strict_eq (Num (real (unat (data img ! (?i + 3))) / 255)) (Num 1)"
    using ne1 by (simp add: strict_eq_def)
  show ?thesis
    unfolding drawPixel_def if_not_P [OF in_bounds] Let_def pixel_offsets old
      if_not_P [OF c] if_not_P [OF c1] ..
qed

lemma drawPixel_blend_opaque:
  assumes wf: "length (data img) = 4 * width img * height img"
    and px: "px < width img" and py: "py < height img"
    and old: "data img ! (4 * (py * width img + px) + 3) = 255"
    and lt: "blend < 1" and opaque: "1 \<le> a"
  shows "drawPixel img (Num (real px)) (Num (real py)) (Num r) (Num g) (Num b) (Num a) (Num blend) =
           img\<lparr>data := (data img)
             [4 * (py * width img + px) := ToUint8Clamp (Num (source_over blend
                 (real (unat (data img ! (4 * (py * width img + px))))) 1
                 (of_int \<lfloor>min (max r 0) 1 * 255\<rfloor>) 1)),
              4 * (py * width img + px) + 1 := ToUint8Clamp (Num (source_over blend
                 (real (unat (data img ! (4 * (py * width img + px) + 1)))) 1
                 (of_int \<lfloor>min (max g 0) 1 * 255\<rfloor>) 1)),
              4 * (py * width img + px) + 2 := ToUint8Clamp (Num (source_over blend
                 (real (unat (data img ! (4 * (py * width img + px) + 2)))) 1
                 (of_int \<lfloor>min (max b 0) 1 * 255\<rfloor>) 1)),
              4 * (py * width img + px) + 3 := 255]\<rparr>"
proof -
  let ?i = "4 * (py * width img + px)"
  note ix = pixel_index [OF wf px py]
  have in_bounds: "\<not> (Num (real px) < Num 0 \<or> Num (real px) \<ge> Num (real (width img))
      \<or> Num (real py) < Num 0 \<or> Num (real py) \<ge> Num (real (height img)))"
    using px py by simp
  have oldA: "typed_get (data img) (Num (real (?i + 3))) / Num 255 = Num 1"
    using ix by (simp only: typed_get_nat old) simp
  have a: "clamp01 (Num a) = Num 1"
    using opaque by (simp add: clamp01_def clamp_Num)
  have c: "\<not> Num 1 \<le> Num blend"
    using lt by simp
  have c1: "strict_eq (Num 1) (Num 1)"
    by (simp add: strict_eq_def)
  have l1: "lerp (Num blend) (Num 1) (Num 1) = Num 1"
    by (simp add: lerp_def)
  have cl: "Math_floor (clamp01 (Num v) * Num 255) = Num (of_int \<lfloor>min (max v 0) 1 * 255\<rfloor>)" for v
    by (simp add: clamp01_def clamp_Num max.commute)
  have ixs: "?i < length (data img)" "?i + 1 < length (data img)" "?i + 2 < length (data img)"
    using ix by simp_all
  have so: "lerp (Num blend) (Num u) (Num v * Num 1) / Num 1 = Num (source_over blend u 1 v 1)" for u v
    by (simp add: lerp_def source_over_def)
  have al: "ToUint8Clamp (Math_floor (Num 1 * Num 255)) = 255"
    by simp
  show ?thesis
    unfolding drawPixel_def if_not_P [OF in_bounds] Let_def pixel_offsets oldA a
      if_not_P [OF c] if_P [OF c1] l1 cl
    using ix ixs
    by (simp only: typed_set_nat typed_get_nat length_list_update nth_list_update_neq so al)
qed

text \<open>
  C1. The first and the third case of the compositing rule are \<open>drawPixel_replace\<close>
  and \<open>drawPixel_unchanged\<close>, and for an opaque new colour the second case is the
  specification's source-over blend (\<open>drawPixel_blend_opaque\<close>). For a new colour
  that is not opaque the second case is not: the code overwrites \<open>a\<close> with the blended
  alpha before it premultiplies the new colour by \<open>a\<close>. Over the opaque grey
  \<open>(127, 127, 127, 255)\<close>, the same grey at alpha \<open>0.5\<close> and coverage \<open>0.5\<close> is
  stored as \<open>(148, 148, 148, 191)\<close>, where the blend in premultiplied space keeps the
  colour \<open>127\<close>.
\<close>

theorem drawPixel_blend_divergence:
  "drawPixel \<lparr>width = 1, height = 1, data = [127, 127, 127, 255]\<rparr>
       (Num 0) (Num 0) (Num 0.5) (Num 0.5) (Num 0.5) (Num 0.5) (Num 0.5)
     = \<lparr>width = 1, height = 1, data = [148, 148, 148, 191]\<rparr>
   \<and> ToUint8Clamp (Num (source_over 0.5 127 1 127 0.5)) = 127"
  by (simp add: drawPixel_def clamp01_def clamp_def lerp_def strict_eq_def source_over_def Let_def)

section \<open>The loop counters\<close>

lemma spacing_small: "m < 2 ^ 53 \<Longrightarrow> spacing m = 1"
  by (subst spacing.simps) simp

lemma spacing_2_53: "spacing (2 ^ 53) = 2"
  by (subst spacing.simps) (simp add: spacing_small)

lemma to_double_id:
  assumes "\<bar>n\<bar> \<le> 2 ^ 53"
  shows "to_double n = n"
proof (cases "\<bar>n\<bar> < 2 ^ 53")
  case True
  then have "nat \<bar>n\<bar> < 2 ^ 53"
    by (simp add: nat_less_iff)
  then have "spacing (nat \<bar>n\<bar>) = 1"
    by (rule spacing_small)
  then show ?thesis
    by (simp add: to_double_def round_even_def)
next
  case False
  with assms have "\<bar>n\<bar> = 2 ^ 53"
    by simp
  then have n: "n = 2 ^ 53 \<or> n = - (2 ^ 53)"
    by linarith
  then have "nat \<bar>n\<bar> = 2 ^ 53"
    by auto
  then have "spacing (nat \<bar>n\<bar>) = 2"
    by (simp only: spacing_2_53)
  with n show ?thesis
    by (auto simp: to_double_def round_even_def Let_def)
qed

lemma int_bounds:
  fixes j :: int
  assumes "real_of_int j \<le> 2 ^ 53" and "- (2 ^ 53) \<le> real_of_int j"
  shows "\<bar>j\<bar> \<le> 2 ^ 53"
proof -
  have "real_of_int j \<le> real_of_int (2 ^ 53)" "real_of_int (- (2 ^ 53)) \<le> real_of_int j"
    using assms by simp_all
  then have "j \<le> 2 ^ 53" "- (2 ^ 53) \<le> j"
    by (simp_all only: of_int_le_iff)
  then show ?thesis
    by (simp only: abs_le_iff) simp
qed

lemma rounded_int: "\<bar>n\<bar> \<le> 2 ^ 53 \<Longrightarrow> rounded (Num (of_int n)) = Num (of_int n)"
  by (simp add: to_double_id)

lemma rounded_step:
  assumes "\<bar>j + k\<bar> \<le> 2 ^ 53"
  shows "rounded (Num (of_int j) + Num (of_int k)) = Num (of_int (j + k))"
proof -
  have "Num (of_int j) + Num (of_int k) = Num (of_int (j + k))"
    by simp
  then show ?thesis
    using rounded_int [OF assms] by simp
qed

section \<open>Termination of the rasterizer on bounded input\<close>

lemma clamp01_Num: "clamp01 (Num t) = Num (max (min t 1) 0)"
  by (simp add: clamp01_def clamp_Num)

lemma lerp_Num: "lerp (Num t) (Num a) (Num b) = Num ((1 - t) * a + t * b)"
  by (simp add: lerp_def)

lemma projection_Num:
  assumes "geometry ps s" and "geometry pe e"
  shows "projection ps pe (Num x) (Num y) = Num (proj_r s e x y)"
proof (cases "e Fx - s Fx = 0")
  case True
  then show ?thesis
    using assms by (simp add: projection_def proj_r_def Let_def strict_eq_def geometry_def)
next
  case False
  then have "(e Fx - s Fx) * (e Fx - s Fx) + (e Fy - s Fy) * (e Fy - s Fy) \<noteq> 0"
    by (simp add: sum_squares_eq_zero_iff)
  with False show ?thesis
    using assms by (simp add: projection_def proj_r_def Let_def strict_eq_def sq_def geometry_def)
qed

lemma coverage_Num:
  assumes "geometry ps s" and "geometry pe e"
  shows "coverage ps pe (Num x) (Num y) (Num t) = Num (cov_r s e x y t)"
proof -
  have "Math_sqrt (Num (a * a + b * b)) = Num (sqrt (a * a + b * b))" for a b :: real
    by (simp add: not_less)
  then show ?thesis
    using assms
    by (simp add: coverage_def cov_r_def Let_def lerp_Num sq_def clamp01_Num geometry_def
        del: Math_sqrt.simps)
qed

lemma drawLinePixel_inside:
  assumes "geometry ps s" and "geometry pe e"
  shows "snd (drawLinePixel img (Num x) (Num y) ps pe steep reverse)
     = (cov_r s e x y (max (min (proj_r s e x y) 1) 0) \<noteq> 0)"
  by (simp add: drawLinePixel_def projection_Num [OF assms] clamp01_Num coverage_Num [OF assms]
      Let_def strict_eq_def split: prod.splits)

lemma lerp_le_max:
  fixes a b t :: real
  assumes "0 \<le> t" and "t \<le> 1"
  shows "(1 - t) * a + t * b \<le> max a b"
  using assms by (intro convex_bound_le) simp_all

lemma lerp_ge_min:
  fixes a b t :: real
  assumes "0 \<le> t" and "t \<le> 1"
  shows "min a b \<le> (1 - t) * a + t * b"
proof -
  have "(1 - t) * (- a) + t * (- b) \<le> max (- a) (- b)"
    using assms by (rule lerp_le_max)
  then show ?thesis
    by (simp add: algebra_simps)
qed

lemma cov_r_bound:
  assumes t: "0 \<le> t" "t \<le> 1" and c: "cov_r s e x y t \<noteq> 0"
  shows "\<bar>y - ((1 - t) * s Fy + t * e Fy)\<bar> < reach s e"
proof -
  define tw where "tw = max ((1 - t) * s Fw + t * e Fw) 0"
  define tx where "tx = (1 - t) * s Fx + t * e Fx"
  define ty where "ty = (1 - t) * s Fy + t * e Fy"
  define d where "d = sqrt ((x - tx) * (x - tx) + (y - ty) * (y - ty))"
  have cov: "cov_r s e x y t = max (min ((max tw 1 * 0.5 + 0.5 - d) * min tw 1) 1) 0"
    by (simp add: cov_r_def Let_def tw_def tx_def ty_def d_def)
  have tw0: "0 \<le> min tw 1" by (simp add: tw_def)
  have pos: "0 < (max tw 1 * 0.5 + 0.5 - d) * min tw 1"
    using c unfolding cov by (cases "0 < (max tw 1 * 0.5 + 0.5 - d) * min tw 1") simp_all
  have q: "0 < max tw 1 * 0.5 + 0.5 - d"
  proof (rule ccontr)
    assume "\<not> 0 < max tw 1 * 0.5 + 0.5 - d"
    then have "max tw 1 * 0.5 + 0.5 - d \<le> 0" by simp
    then have "(max tw 1 * 0.5 + 0.5 - d) * min tw 1 \<le> 0"
      using tw0 by (rule mult_nonpos_nonneg)
    with pos show False by simp
  qed
  have "(1 - t) * s Fw + t * e Fw \<le> max (s Fw) (e Fw)"
    using t by (rule lerp_le_max)
  then have "max tw 1 \<le> max (max (s Fw) (e Fw)) 1"
    unfolding tw_def by linarith
  then have r: "max tw 1 * 0.5 + 0.5 \<le> reach s e"
    by (simp add: reach_def)
  have "\<bar>y - ty\<bar> = sqrt ((y - ty) * (y - ty))"
    by simp
  also have "\<dots> \<le> d"
    unfolding d_def by (rule real_sqrt_le_mono) simp
  finally have "\<bar>y - ty\<bar> \<le> d" .
  with q r show ?thesis
    unfolding ty_def by linarith
qed

lemma scan_step_bound:
  assumes "geometry ps s" and "geometry pe e"
    and "snd (drawLinePixel img (Num x) (Num y) ps pe steep reverse)"
  shows "y < max (s Fy) (e Fy) + reach s e" and "min (s Fy) (e Fy) - reach s e < y"
proof -
  let ?t = "max (min (proj_r s e x y) 1) 0"
  have t: "0 \<le> ?t" "?t \<le> 1" by simp_all
  have "cov_r s e x y ?t \<noteq> 0"
    using assms(3) unfolding drawLinePixel_inside [OF assms(1,2)] .
  from cov_r_bound [OF t this]
  have b: "\<bar>y - ((1 - ?t) * s Fy + ?t * e Fy)\<bar> < reach s e" .
  have "(1 - ?t) * s Fy + ?t * e Fy \<le> max (s Fy) (e Fy)"
    using t by (rule lerp_le_max)
  with b show "y < max (s Fy) (e Fy) + reach s e" by linarith
  have "min (s Fy) (e Fy) \<le> (1 - ?t) * s Fy + ?t * e Fy"
    using t by (rule lerp_ge_min)
  with b show "min (s Fy) (e Fy) - reach s e < y" by linarith
qed

text \<open>
  The rows a scan can reach lie within \<open>reach\<close> of the line; when they stay below
  \<open>2\<^sup>5\<^sup>3\<close> in magnitude every step of the counter is exact.
\<close>

lemma scan_up_returns:
  assumes g: "geometry ps s" "geometry pe e"
    and hi: "max (s Fy) (e Fy) + reach s e + 1 \<le> 2 ^ 53"
    and lo: "- (2 ^ 53) \<le> min (s Fy) (e Fy) - reach s e - 1"
  shows "\<exists>img'. scan img (Num x) (Num (of_int j)) (Num 1) ps pe steep reverse = Some img'"
proof (induction "nat \<lceil>max (s Fy) (e Fy) + reach s e - of_int j\<rceil>" arbitrary: j img rule: less_induct)
  case less
  obtain img1 b where d: "drawLinePixel img (Num x) (Num (of_int j)) ps pe steep reverse = (img1, b)"
    by (cases "drawLinePixel img (Num x) (Num (of_int j)) ps pe steep reverse")
  show ?case
  proof (cases b)
    case False
    with d show ?thesis
      by (subst scan.simps) simp
  next
    case True
    then have in1: "snd (drawLinePixel img (Num x) (Num (of_int j)) ps pe steep reverse)"
      using d by simp
    have up: "of_int j < max (s Fy) (e Fy) + reach s e"
      and dn: "min (s Fy) (e Fy) - reach s e < of_int j"
      using scan_step_bound [OF g in1] by simp_all
    have "real_of_int (j + 1) \<le> 2 ^ 53" "- (2 ^ 53) \<le> real_of_int (j + 1)"
      using up dn hi lo by simp_all
    then have "\<bar>j + 1\<bar> \<le> 2 ^ 53"
      by (rule int_bounds)
    then have r: "rounded (Num (of_int j) + Num 1) = Num (of_int (j + 1))"
      using rounded_step [of j 1] by simp
    have "nat \<lceil>max (s Fy) (e Fy) + reach s e - of_int (j + 1)\<rceil>
        < nat \<lceil>max (s Fy) (e Fy) + reach s e - of_int j\<rceil>"
      using up by simp linarith
    from less [OF this, of img1]
    obtain img' where "scan img1 (Num x) (Num (of_int (j + 1))) (Num 1) ps pe steep reverse = Some img'"
      by blast
    with d True r show ?thesis
      by (subst scan.simps) simp
  qed
qed

lemma scan_down_returns:
  assumes g: "geometry ps s" "geometry pe e"
    and hi: "max (s Fy) (e Fy) + reach s e + 1 \<le> 2 ^ 53"
    and lo: "- (2 ^ 53) \<le> min (s Fy) (e Fy) - reach s e - 1"
  shows "\<exists>img'. scan img (Num x) (Num (of_int j)) (Num (- 1)) ps pe steep reverse = Some img'"
proof (induction "nat \<lceil>of_int j - (min (s Fy) (e Fy) - reach s e)\<rceil>" arbitrary: j img rule: less_induct)
  case less
  obtain img1 b where d: "drawLinePixel img (Num x) (Num (of_int j)) ps pe steep reverse = (img1, b)"
    by (cases "drawLinePixel img (Num x) (Num (of_int j)) ps pe steep reverse")
  show ?case
  proof (cases b)
    case False
    with d show ?thesis
      by (subst scan.simps) simp
  next
    case True
    then have in1: "snd (drawLinePixel img (Num x) (Num (of_int j)) ps pe steep reverse)"
      using d by simp
    have up: "of_int j < max (s Fy) (e Fy) + reach s e"
      and dn: "min (s Fy) (e Fy) - reach s e < of_int j"
      using scan_step_bound [OF g in1] by simp_all
    have "real_of_int (j - 1) \<le> 2 ^ 53" "- (2 ^ 53) \<le> real_of_int (j - 1)"
      using up dn hi lo by simp_all
    then have "\<bar>j - 1\<bar> \<le> 2 ^ 53"
      by (rule int_bounds)
    then have "\<bar>j + - 1\<bar> \<le> 2 ^ 53"
      by simp
    then have r: "rounded (Num (of_int j) + Num (- 1)) = Num (of_int (j - 1))"
      using rounded_step [of j "- 1"] by simp
    have "nat \<lceil>of_int (j - 1) - (min (s Fy) (e Fy) - reach s e)\<rceil>
        < nat \<lceil>of_int j - (min (s Fy) (e Fy) - reach s e)\<rceil>"
      using dn by simp linarith
    from less [OF this, of img1]
    obtain img' where "scan img1 (Num x) (Num (of_int (j - 1))) (Num (- 1)) ps pe steep reverse = Some img'"
      by blast
    with d True r show ?thesis
      by (subst scan.simps) simp
  qed
qed

lemma columns_returns:
  assumes g: "geometry ps s" "geometry pe e"
    and hi: "max (s Fy) (e Fy) + reach s e + 1 \<le> 2 ^ 53"
    and lo: "- (2 ^ 53) \<le> min (s Fy) (e Fy) - reach s e - 1"
    and mx: "m + 1 \<le> 2 ^ 53"
  shows "- (2 ^ 53) \<le> real_of_int i \<Longrightarrow>
         \<exists>img'. columns img (Num (of_int i)) (Num m) (Num sl) ps pe steep reverse = Some img'"
proof (induction "nat \<lceil>m - of_int i + 1\<rceil>" arbitrary: i img rule: less_induct)
  case less
  show ?case
  proof (cases "real_of_int i \<le> m")
    case False
    then show ?thesis
      by (subst columns.simps) simp
  next
    case True
    define lineY where "lineY = clamp (ToNumber (ps Fy) + Num sl * (Num (of_int i) - ToNumber (ps Fx)))
        (ToNumber (ps Fy)) (ToNumber (pe Fy))"
    obtain ly where ly: "lineY = Num ly"
      unfolding lineY_def using g by (simp add: clamp_Num geometry_def)
    obtain img1 where s1: "scan img (Num (of_int i)) (Math_ceil lineY) (Num 1) ps pe steep reverse = Some img1"
      unfolding ly using scan_up_returns [OF g hi lo, of img "of_int i" "\<lceil>ly\<rceil>" steep reverse]
      by auto
    obtain img2 where s2: "scan img1 (Num (of_int i)) (Math_floor lineY) (Num (- 1)) ps pe steep reverse = Some img2"
      unfolding ly using scan_down_returns [OF g hi lo, of img1 "of_int i" "\<lfloor>ly\<rfloor>" steep reverse]
      by auto
    have "real_of_int (i + 1) \<le> 2 ^ 53" "- (2 ^ 53) \<le> real_of_int (i + 1)"
      using True mx less.prems by simp_all
    then have "\<bar>i + 1\<bar> \<le> 2 ^ 53"
      by (rule int_bounds)
    then have r: "rounded (Num (of_int i) + Num 1) = Num (of_int (i + 1))"
      using rounded_step [of i 1] by simp
    have "nat \<lceil>m - of_int (i + 1) + 1\<rceil> < nat \<lceil>m - of_int i + 1\<rceil>"
      using True by (simp; linarith)
    moreover have "- (2 ^ 53) \<le> real_of_int (i + 1)"
      using less.prems by simp
    ultimately obtain img' where
      "columns img2 (Num (of_int (i + 1))) (Num m) (Num sl) ps pe steep reverse = Some img'"
      using less.hyps [of "i + 1" img2] by blast
    moreover have "columns img (Num (of_int i)) (Num m) (Num sl) ps pe steep reverse
        = columns img2 (Num (of_int (i + 1))) (Num m) (Num sl) ps pe steep reverse"
      by (subst columns.simps, unfold Let_def lineY_def [symmetric]) (use True s1 s2 r in simp)
    ultimately show ?thesis
      by simp
  qed
qed

lemma swap_xy_geometry:
  "geometry p q \<Longrightarrow> geometry (swap_xy p) (q(Fx := q Fy, Fy := q Fx))"
  by (simp add: geometry_def swap_xy_def)

lemma negate_x_geometry:
  "geometry p q \<Longrightarrow> geometry (negate_x p) (q(Fx := - q Fx))"
  by (simp add: geometry_def negate_x_def)

lemma drawLine_normalized:
  assumes g: "geometry ps s" "geometry pe e"
    and b: "\<bar>s Fx\<bar> \<le> 2 ^ 51" "\<bar>s Fy\<bar> \<le> 2 ^ 51" "\<bar>s Fw\<bar> \<le> 2 ^ 51"
      "\<bar>e Fx\<bar> \<le> 2 ^ 51" "\<bar>e Fy\<bar> \<le> 2 ^ 51" "\<bar>e Fw\<bar> \<le> 2 ^ 51"
  shows "\<exists>img'. (let slope = (if strict_equals (pe Fx) (ps Fx) then Num 0
                   else (ToNumber (pe Fy) - ToNumber (ps Fy))
                          / (ToNumber (pe Fx) - ToNumber (ps Fx)));
          minX = Math_floor (ToNumber (ps Fx) - ToNumber (ps Fw) * Num 0.5);
          maxX = Math_floor (ToNumber (pe Fx) + ToNumber (pe Fw) * Num 0.5)
      in columns img minX maxX slope ps pe steep reverse) = Some img'"
proof -
  have r: "reach s e \<le> 2 ^ 50 + 1 / 2"
    using b(3,6) unfolding reach_def by (simp; linarith)
  have hi: "max (s Fy) (e Fy) + reach s e + 1 \<le> 2 ^ 53"
    using b(2,5) r by (simp; linarith)
  have lo: "- (2 ^ 53) \<le> min (s Fy) (e Fy) - reach s e - 1"
    using b(2,5) r by (simp; linarith)
  define i where "i = \<lfloor>s Fx - s Fw * 0.5\<rfloor>"
  define m where "m = real_of_int \<lfloor>e Fx + e Fw * 0.5\<rfloor>"
  have mx: "m + 1 \<le> 2 ^ 53"
  proof -
    have "m \<le> e Fx + e Fw * 0.5"
      unfolding m_def by (rule of_int_floor_le)
    with b(4,6) show ?thesis by (simp; linarith)
  qed
  have lw: "- (2 ^ 53) \<le> real_of_int i"
  proof -
    have "s Fx - s Fw * 0.5 - 1 < real_of_int i"
      unfolding i_def by linarith
    with b(1,3) show ?thesis by (simp; linarith)
  qed
  obtain sl where sl: "(if strict_equals (pe Fx) (ps Fx) then Num 0
                   else (ToNumber (pe Fy) - ToNumber (ps Fy))
                          / (ToNumber (pe Fx) - ToNumber (ps Fx))) = Num sl"
    using g by (cases "e Fx = s Fx") (simp_all add: geometry_def strict_eq_def)
  have mn: "Math_floor (ToNumber (ps Fx) - ToNumber (ps Fw) * Num 0.5) = Num (of_int i)"
    using g by (simp add: geometry_def i_def)
  have ma: "Math_floor (ToNumber (pe Fx) + ToNumber (pe Fw) * Num 0.5) = Num m"
    using g by (simp add: geometry_def m_def)
  show ?thesis
    unfolding Let_def sl mn ma by (rule columns_returns [OF g hi lo mx lw])
qed

lemma in_range_Num: "in_range v \<Longrightarrow> \<exists>a. v = Number (Num a) \<and> \<bar>a\<bar> \<le> 2 ^ 51"
proof (cases v)
  case Undefined
  assume "in_range v"
  with Undefined show ?thesis by simp
next
  case (Number n)
  assume "in_range v"
  with Number show ?thesis by (cases n) simp_all
qed

lemma drawable_point_geometry:
  assumes r: "in_range (p Fx)" "in_range (p Fy)" "in_range (p Fw)"
  shows "\<exists>q. geometry p q \<and> \<bar>q Fx\<bar> \<le> 2 ^ 51 \<and> \<bar>q Fy\<bar> \<le> 2 ^ 51 \<and> \<bar>q Fw\<bar> \<le> 2 ^ 51"
proof -
  obtain x where x: "p Fx = Number (Num x)" "\<bar>x\<bar> \<le> 2 ^ 51"
    using in_range_Num [OF r(1)] by blast
  obtain y where y: "p Fy = Number (Num y)" "\<bar>y\<bar> \<le> 2 ^ 51"
    using in_range_Num [OF r(2)] by blast
  obtain w where w: "p Fw = Number (Num w)" "\<bar>w\<bar> \<le> 2 ^ 51"
    using in_range_Num [OF r(3)] by blast
  define q where "q = (\<lambda>k. if k = Fx then x else if k = Fy then y else w)"
  have "geometry p q"
    using x(1) y(1) w(1) by (simp add: geometry_def q_def)
  moreover have "\<bar>q Fx\<bar> \<le> 2 ^ 51" "\<bar>q Fy\<bar> \<le> 2 ^ 51" "\<bar>q Fw\<bar> \<le> 2 ^ 51"
    using x(2) y(2) w(2) by (simp_all add: q_def)
  ultimately show ?thesis
    by blast
qed

lemma drawLine_bounded:
  assumes "in_range (ps Fx)" "in_range (ps Fy)" "in_range (ps Fw)"
    and "in_range (pe Fx)" "in_range (pe Fy)" "in_range (pe Fw)"
  shows "\<exists>img'. drawLine img ps pe = Some img'"
proof -
  obtain s where s: "geometry ps s" "\<bar>s Fx\<bar> \<le> 2 ^ 51" "\<bar>s Fy\<bar> \<le> 2 ^ 51" "\<bar>s Fw\<bar> \<le> 2 ^ 51"
    using drawable_point_geometry [OF assms(1-3)] by blast
  obtain e where e: "geometry pe e" "\<bar>e Fx\<bar> \<le> 2 ^ 51" "\<bar>e Fy\<bar> \<le> 2 ^ 51" "\<bar>e Fw\<bar> \<le> 2 ^ 51"
    using drawable_point_geometry [OF assms(4-6)] by blast
  define steep where "steep = (Math_abs (ToNumber (ps Fy) - ToNumber (pe Fy))
      > Math_abs (ToNumber (ps Fx) - ToNumber (pe Fx)))"
  define s1 where "s1 = (if steep then s(Fx := s Fy, Fy := s Fx) else s)"
  define e1 where "e1 = (if steep then e(Fx := e Fy, Fy := e Fx) else e)"
  define ps1 where "ps1 = (if steep then swap_xy ps else ps)"
  define pe1 where "pe1 = (if steep then swap_xy pe else pe)"
  define reverse where "reverse = (ToNumber (ps1 Fx) > ToNumber (pe1 Fx))"
  define s2 where "s2 = (if reverse then s1(Fx := - s1 Fx) else s1)"
  define e2 where "e2 = (if reverse then e1(Fx := - e1 Fx) else e1)"
  define ps2 where "ps2 = (if reverse then negate_x ps1 else ps1)"
  define pe2 where "pe2 = (if reverse then negate_x pe1 else pe1)"
  have g1: "geometry ps1 s1" "geometry pe1 e1"
    using s(1) e(1) by (simp_all add: ps1_def pe1_def s1_def e1_def swap_xy_geometry)
  have g2: "geometry ps2 s2" "geometry pe2 e2"
    using g1 by (simp_all add: ps2_def pe2_def s2_def e2_def negate_x_geometry)
  have b2: "\<bar>s2 Fx\<bar> \<le> 2 ^ 51" "\<bar>s2 Fy\<bar> \<le> 2 ^ 51" "\<bar>s2 Fw\<bar> \<le> 2 ^ 51"
      "\<bar>e2 Fx\<bar> \<le> 2 ^ 51" "\<bar>e2 Fy\<bar> \<le> 2 ^ 51" "\<bar>e2 Fw\<bar> \<le> 2 ^ 51"
    using s(2-4) e(2-4) by (simp_all add: s2_def e2_def s1_def e1_def)
  have p1: "(if steep then (swap_xy ps, swap_xy pe) else (ps, pe)) = (ps1, pe1)"
    by (simp add: ps1_def pe1_def)
  have p2: "(if reverse then (negate_x ps1, negate_x pe1) else (ps1, pe1)) = (ps2, pe2)"
    by (simp add: ps2_def pe2_def)
  have "drawLine img ps pe =
      (let slope = (if strict_equals (pe2 Fx) (ps2 Fx) then Num 0
                   else (ToNumber (pe2 Fy) - ToNumber (ps2 Fy))
                          / (ToNumber (pe2 Fx) - ToNumber (ps2 Fx)));
          minX = Math_floor (ToNumber (ps2 Fx) - ToNumber (ps2 Fw) * Num 0.5);
          maxX = Math_floor (ToNumber (pe2 Fx) + ToNumber (pe2 Fw) * Num 0.5)
      in columns img minX maxX slope ps2 pe2 steep reverse)"
    unfolding drawLine_def steep_def [symmetric] Let_def p1 prod.case reverse_def [symmetric] p2
    by (rule refl)
  then show ?thesis
    by (simp only:) (rule drawLine_normalized [OF g2 b2])
qed

lemma NaN_arith [simp]:
  "c + NaN = NaN" "NaN + c = NaN" "c * NaN = NaN" "NaN * c = NaN" "c - NaN = NaN" "NaN - c = NaN"
  by (cases c; simp add: minus_jsnum_def)+

lemma NaN_compare [simp]: "\<not> c < NaN" "\<not> NaN < c" "\<not> c \<le> NaN" "\<not> NaN \<le> c"
  by (cases c; simp)+

lemma columns_NaN:
  "columns img NaN maxX slope start end steep reverse = Some img"
  "columns img x NaN slope start end steep reverse = Some img"
  by (subst columns.simps, simp)+

text \<open>
  A line with an end whose \<open>x\<close> or \<open>w\<close> is \<open>NaN\<close> draws nothing: the comparisons that
  decide \<open>steep\<close> and \<open>reverse\<close> are false, so no coordinate moves, and \<open>minX\<close> or
  \<open>maxX\<close> is \<open>NaN\<close>.
\<close>

lemma drawLine_skipped:
  assumes "ToNumber (ps Fx) = NaN \<or> ToNumber (pe Fx) = NaN
      \<or> ToNumber (ps Fw) = NaN \<or> ToNumber (pe Fw) = NaN"
  shows "drawLine img ps pe = Some img"
proof -
  consider (sx) "ToNumber (ps Fx) = NaN" | (ex) "ToNumber (pe Fx) = NaN"
    | (sw) "ToNumber (ps Fw) = NaN" | (ew) "ToNumber (pe Fw) = NaN"
    using assms by blast
  then show ?thesis
  proof cases
    case sx
    then show ?thesis
      by (simp add: drawLine_def Let_def columns_NaN)
  next
    case ex
    then show ?thesis
      by (simp add: drawLine_def Let_def columns_NaN)
  next
    case sw
    then show ?thesis
      by (simp add: drawLine_def Let_def columns_NaN swap_xy_def negate_x_def)
  next
    case ew
    then show ?thesis
      by (simp add: drawLine_def Let_def columns_NaN swap_xy_def negate_x_def)
  qed
qed

lemma drawLine_returns:
  assumes "drawable_point ps" and "drawable_point pe"
  shows "\<exists>img'. drawLine img ps pe = Some img'"
proof (cases "ToNumber (ps Fx) = NaN \<or> ToNumber (pe Fx) = NaN
      \<or> ToNumber (ps Fw) = NaN \<or> ToNumber (pe Fw) = NaN")
  case True
  then show ?thesis
    by (simp only: drawLine_skipped) simp
next
  case False
  with assms have "in_range (ps Fx)" "in_range (ps Fy)" "in_range (ps Fw)"
      "in_range (pe Fx)" "in_range (pe Fy)" "in_range (pe Fw)"
    unfolding drawable_point_def by blast+
  then show ?thesis
    by (rule drawLine_bounded)
qed

lemma segments_returns:
  assumes d: "drawable dflt stroke" and n: "n < 2 ^ 53"
  shows "1 \<le> j \<Longrightarrow> drawable_point lineStart \<Longrightarrow>
         \<exists>img'. segments img stroke dflt (Num n) (Num (of_int j)) lineStart = Some (Inr img')"
proof (induction "nat \<lceil>n - of_int j + 1\<rceil>" arbitrary: j img lineStart rule: less_induct)
  case less
  show ?case
  proof (cases "real_of_int j \<le> n")
    case False
    then show ?thesis
      by (subst segments.simps) simp
  next
    case True
    have j0: "0 < real_of_int j" using less.prems(1) by simp
    with True have n0: "0 < n" by simp
    have "0 \<le> real_of_int j / n" "real_of_int j / n \<le> 1"
      using True j0 n0 by simp_all
    then obtain p where p: "evaluate stroke (Num (real_of_int j / n)) = Inr p"
      and dp: "drawable_point (resolve dflt p)"
      using d unfolding drawable_def drawable_at_def by blast
    obtain img1 where dl: "drawLine img lineStart (resolve dflt p) = Some img1"
      using drawLine_returns [OF less.prems(2) dp] by blast
    have "real_of_int (j + 1) \<le> 2 ^ 53" "- (2 ^ 53) \<le> real_of_int (j + 1)"
    proof -
      have "real_of_int j < real_of_int (2 ^ 53)"
        using True n by simp
      then have "j < 2 ^ 53"
        by (simp only: of_int_less_iff)
      then have "j + 1 \<le> 2 ^ 53" by simp
      then have "real_of_int (j + 1) \<le> real_of_int (2 ^ 53)"
        by (simp only: of_int_le_iff)
      then show "real_of_int (j + 1) \<le> 2 ^ 53" by simp
      show "- (2 ^ 53) \<le> real_of_int (j + 1)"
        using j0 by simp
    qed
    then have "\<bar>j + 1\<bar> \<le> 2 ^ 53"
      by (rule int_bounds)
    then have r: "rounded (Num (of_int j) + Num 1) = Num (of_int (j + 1))"
      using rounded_step [of j 1] by simp
    have "nat \<lceil>n - of_int (j + 1) + 1\<rceil> < nat \<lceil>n - of_int j + 1\<rceil>"
      using True by (simp; linarith)
    moreover have "1 \<le> j + 1" using less.prems(1) by simp
    ultimately obtain img' where
      "segments img1 stroke dflt (Num n) (Num (of_int (j + 1))) (resolve dflt p) = Some (Inr img')"
      using less.hyps [of "j + 1" "resolve dflt p" img1] dp by blast
    then show ?thesis
      using True n0 p dl r by (subst segments.simps) (simp add: Let_def)
  qed
qed

lemma draw_stroke_returns:
  assumes "drawable (ctx_default ctx) stroke" and "\<not> Num (2 ^ 53) \<le> ctx_segmentation ctx"
  shows "\<exists>img'. draw_stroke ctx img stroke = Some (Inr img')"
proof -
  obtain p where p: "evaluate stroke (Num 0) = Inr p"
    and dp: "drawable_point (resolve (ctx_default ctx) p)"
    using assms(1) unfolding drawable_def drawable_at_def by force
  obtain img1 where dl: "drawLine img (resolve (ctx_default ctx) p) (resolve (ctx_default ctx) p) = Some img1"
    using drawLine_returns [OF dp dp] by blast
  have "\<exists>img'. segments img1 stroke (ctx_default ctx) (ctx_segmentation ctx) (Num 1)
      (resolve (ctx_default ctx) p) = Some (Inr img')"
  proof (cases "ctx_segmentation ctx")
    case (Num n)
    with assms(2) have "n < 2 ^ 53" by simp
    from segments_returns [OF assms(1) this _ dp, of 1 img1] show ?thesis
      unfolding Num by simp
  next
    case PInf
    with assms(2) show ?thesis by simp
  next
    case NInf
    show ?thesis
      unfolding NInf by (subst segments.simps) simp
  next
    case NaN
    show ?thesis
      unfolding NaN by (subst segments.simps) simp
  qed
  then show ?thesis
    using p dl by (simp add: draw_stroke_def Let_def)
qed

lemma draw_strokes_returns:
  assumes "\<not> Num (2 ^ 53) \<le> ctx_segmentation ctx"
  shows "list_all (drawable (ctx_default ctx)) ss \<Longrightarrow> \<exists>img'. draw_strokes ctx img ss = Some (Inr img')"
proof (induction ss arbitrary: img)
  case Nil
  then show ?case by simp
next
  case (Cons s ss)
  then have "drawable (ctx_default ctx) s" and rest: "list_all (drawable (ctx_default ctx)) ss"
    by simp_all
  then obtain img1 where "draw_stroke ctx img s = Some (Inr img1)"
    using draw_stroke_returns [OF _ assms] by blast
  then show ?case
    using Cons.IH [OF rest, of img1] by simp
qed

section \<open>Loops that never end\<close>

text \<open>
  A scan whose counter cannot move while the pixel stays within the stroke, a column
  loop whose counter cannot move below its bound: neither returns.
\<close>

lemma scan_stuck:
  assumes ins: "\<And>img. snd (drawLinePixel img x y start end steep reverse)"
    and st: "rounded (y + step) = y"
  shows "scan img x y step start end steep reverse = None"
proof (rule ccontr)
  assume "scan img x y step start end steep reverse \<noteq> None"
  then obtain r where r: "scan img x y step start end steep reverse = Some r"
    by auto
  let ?P = "\<lambda>(img' :: ImageData) x' y' step' s' e' st' rv' (r' :: ImageData).
      \<not> (x' = x \<and> y' = y \<and> step' = step \<and> s' = start \<and> e' = end \<and> st' = steep \<and> rv' = reverse)"
  note ind = scan.raw_induct [where P = ?P
      and xa = "(((((((img, x), y), step), start), end), steep), reverse)" and ya = r,
      simplified prod.case]
  have "?P img x y step start end steep reverse r"
  proof (rule ind)
    fix scan0 img' x' y' step' s' e' st' rv' r'
    assume ih: "\<And>i0 x0 y0 step0 s0 e0 st0 rv0 r0.
        scan0 i0 x0 y0 step0 s0 e0 st0 rv0 = Some r0 \<Longrightarrow> ?P i0 x0 y0 step0 s0 e0 st0 rv0 r0"
      and body: "(case drawLinePixel img' x' y' s' e' st' rv' of
          (i2, inside) \<Rightarrow>
            if inside then scan0 i2 x' (rounded (y' + step')) step' s' e' st' rv'
            else Some i2) = Some r'"
    show "?P img' x' y' step' s' e' st' rv' r'"
    proof
      assume eq: "x' = x \<and> y' = y \<and> step' = step \<and> s' = start \<and> e' = end \<and> st' = steep \<and> rv' = reverse"
      obtain i2 b where d: "drawLinePixel img' x y start end steep reverse = (i2, b)"
        by (cases "drawLinePixel img' x y start end steep reverse")
      with ins [of img'] have b by simp
      with body eq d st have "scan0 i2 x y step start end steep reverse = Some r'"
        by simp
      from ih [OF this] show False
        by simp
    qed
  next
    show "scan img x y step start end steep reverse = Some r"
      by (rule r)
  qed
  then show False
    by simp
qed

lemma columns_stuck:
  assumes le: "x \<le> maxX" and st: "rounded (x + Num 1) = x"
  shows "columns img x maxX slope start end steep reverse = None"
proof (rule ccontr)
  assume "columns img x maxX slope start end steep reverse \<noteq> None"
  then obtain r where r: "columns img x maxX slope start end steep reverse = Some r"
    by auto
  let ?P = "\<lambda>(img' :: ImageData) x' m' sl' s' e' st' rv' (r' :: ImageData).
      \<not> (x' = x \<and> m' = maxX \<and> sl' = slope \<and> s' = start \<and> e' = end \<and> st' = steep \<and> rv' = reverse)"
  note ind = columns.raw_induct [where P = ?P
      and xa = "(((((((img, x), maxX), slope), start), end), steep), reverse)" and y = r,
      simplified prod.case]
  have "?P img x maxX slope start end steep reverse r"
  proof (rule ind)
    fix columns0 img' x' m' sl' s' e' st' rv' r'
    assume ih: "\<And>i0 x0 m0 sl0 s0 e0 st0 rv0 r0.
        columns0 i0 x0 m0 sl0 s0 e0 st0 rv0 = Some r0 \<Longrightarrow> ?P i0 x0 m0 sl0 s0 e0 st0 rv0 r0"
      and body: "(if x' \<le> m' then
          (let lineY = clamp (ToNumber (s' Fy) + sl' * (x' - ToNumber (s' Fx)))
                         (ToNumber (s' Fy)) (ToNumber (e' Fy))
           in case scan img' x' (Math_ceil lineY) (Num 1) s' e' st' rv' of
                None \<Rightarrow> None
              | Some img1 \<Rightarrow>
                  (case scan img1 x' (Math_floor lineY) (Num (- 1)) s' e' st' rv' of
                     None \<Rightarrow> None
                   | Some img2 \<Rightarrow> columns0 img2 (rounded (x' + Num 1)) m' sl' s' e' st' rv'))
        else Some img') = Some r'"
    show "?P img' x' m' sl' s' e' st' rv' r'"
    proof
      assume eq: "x' = x \<and> m' = maxX \<and> sl' = slope \<and> s' = start \<and> e' = end \<and> st' = steep \<and> rv' = reverse"
      from body eq le st obtain img2 where
        "columns0 img2 x maxX slope start end steep reverse = Some r'"
        by (auto simp: Let_def split: option.splits)
      from ih [OF this] show False
        by simp
    qed
  next
    show "columns img x maxX slope start end steep reverse = Some r"
      by (rule r)
  qed
  then show False
    by simp
qed

lemma spacing_step: "2 ^ 53 \<le> m \<Longrightarrow> spacing m = 2 * spacing (m div 2)"
  by (subst spacing.simps) simp

lemma spacing_examples:
  "spacing 9007199254740993 = 2" "spacing 100000000000000001 = 16"
  "spacing 100000000000000000 = 16"
  by (simp_all add: spacing_step spacing_small)

lemma to_double_absorbs: "to_double (2 ^ 53 + 1) = 2 ^ 53" "to_double (10 ^ 17 + 1) = 10 ^ 17"
  "to_double (10 ^ 17) = 10 ^ 17"
  by (simp_all add: to_double_def spacing_examples) (simp_all add: round_even_def)

lemma rounded_of_int: "rounded (Num (of_int n)) = Num (of_int (to_double n))"
  by simp

lemma rounded_absorbs:
  "rounded (Num (2 ^ 53) + Num 1) = Num (2 ^ 53)"
  "rounded (Num (10 ^ 17) + Num 1) = Num (10 ^ 17)"
  "rounded (Num (10 ^ 17 - 1) + Num 1) = Num (10 ^ 17)"
proof -
  have "rounded (Num (2 ^ 53) + Num 1) = rounded (Num (of_int (2 ^ 53 + 1)))"
    by simp
  also have "\<dots> = Num (of_int (to_double (2 ^ 53 + 1)))"
    by (rule rounded_of_int)
  also have "\<dots> = Num (2 ^ 53)"
    by (simp only: to_double_absorbs) simp
  finally show "rounded (Num (2 ^ 53) + Num 1) = Num (2 ^ 53)" .
  have "rounded (Num (10 ^ 17) + Num 1) = rounded (Num (of_int (10 ^ 17 + 1)))"
    by simp
  also have "\<dots> = Num (of_int (to_double (10 ^ 17 + 1)))"
    by (rule rounded_of_int)
  also have "\<dots> = Num (10 ^ 17)"
    by (simp only: to_double_absorbs) simp
  finally show "rounded (Num (10 ^ 17) + Num 1) = Num (10 ^ 17)" .
  have "rounded (Num (10 ^ 17 - 1) + Num 1) = rounded (Num (of_int (10 ^ 17)))"
    by simp
  also have "\<dots> = Num (of_int (to_double (10 ^ 17)))"
    by (rule rounded_of_int)
  also have "\<dots> = Num (10 ^ 17)"
    by (simp only: to_double_absorbs) simp
  finally show "rounded (Num (10 ^ 17 - 1) + Num 1) = Num (10 ^ 17)" .
qed

text \<open>
  With a segmentation count of \<open>2\<^sup>5\<^sup>3\<close> the counter \<open>t\<close> reaches the count and stays
  there.
\<close>

lemma segments_stuck:
  assumes nr: "never_raises stroke" and j: "1 \<le> j" "j \<le> 2 ^ 53"
  shows "segments img stroke dflt (Num (2 ^ 53)) (Num (of_int j)) lineStart = None"
proof (rule ccontr)
  assume "segments img stroke dflt (Num (2 ^ 53)) (Num (of_int j)) lineStart \<noteq> None"
  then obtain r where r: "segments img stroke dflt (Num (2 ^ 53)) (Num (of_int j)) lineStart = Some r"
    by auto
  let ?P = "\<lambda>(img' :: ImageData) stroke' (dflt' :: field \<Rightarrow> jsnum) seg' t' (ls' :: LinePoint)
      (r' :: js_error + ImageData).
      \<not> (stroke' = stroke \<and> seg' = Num (2 ^ 53)
         \<and> (\<exists>i. t' = Num (of_int i) \<and> 1 \<le> i \<and> i \<le> 2 ^ 53))"
  have "?P img stroke dflt (Num (2 ^ 53)) (Num (of_int j)) lineStart r"
  proof (rule segments.raw_induct [where P = ?P])
    fix segments0 img' stroke' dflt' seg' t' ls' r'
    assume ih: "\<And>i0 s0 d0 seg0 t0 l0 r0.
        segments0 i0 s0 d0 seg0 t0 l0 = Some r0 \<Longrightarrow> ?P i0 s0 d0 seg0 t0 l0 r0"
      and body: "(if t' \<le> seg' then
          (case evaluate stroke' (t' / seg') of
             Inl e \<Rightarrow> Some (Inl e)
           | Inr sample \<Rightarrow>
               (let lineEnd = resolve dflt' sample
                in case drawLine img' ls' lineEnd of
                     None \<Rightarrow> None
                   | Some img'' \<Rightarrow> segments0 img'' stroke' dflt' seg' (rounded (t' + Num 1)) lineEnd))
        else Some (Inr img')) = Some r'"
    show "?P img' stroke' dflt' seg' t' ls' r'"
    proof
      assume eq: "stroke' = stroke \<and> seg' = Num (2 ^ 53)
          \<and> (\<exists>i. t' = Num (of_int i) \<and> 1 \<le> i \<and> i \<le> 2 ^ 53)"
      then obtain i where i: "t' = Num (of_int i)" "1 \<le> i" "i \<le> 2 ^ 53"
        by blast
      have le: "t' \<le> seg'"
      proof -
        have "real_of_int i \<le> real_of_int (2 ^ 53)"
          using i(3) by (simp only: of_int_le_iff)
        then show ?thesis
          using eq i(1) by simp
      qed
      obtain p where p: "evaluate stroke (t' / seg') = Inr p"
        using nr unfolding never_raises_def by blast
      obtain k where k: "rounded (t' + Num 1) = Num (of_int k)" "1 \<le> k" "k \<le> 2 ^ 53"
      proof (cases "i = 2 ^ 53")
        case True
        have "rounded (t' + Num 1) = Num (of_int (2 ^ 53))"
          unfolding i(1) True using rounded_absorbs(1) by simp
        then show ?thesis
          using that [of "2 ^ 53"] by simp
      next
        case False
        with i have "\<bar>i + 1\<bar> \<le> 2 ^ 53"
          by simp
        then have "rounded (t' + Num 1) = Num (of_int (i + 1))"
          unfolding i(1) using rounded_step [of i 1] by simp
        then show ?thesis
          using that [of "i + 1"] i False by simp
      qed
      from body eq le p obtain img2 where
        "segments0 img2 stroke dflt' (Num (2 ^ 53)) (rounded (t' + Num 1)) (resolve dflt' p) = Some r'"
        by (auto simp: Let_def split: option.splits)
      from ih [OF this] k show False
        by blast
    qed
  next
    show "segments img stroke dflt (Num (2 ^ 53)) (Num (of_int j)) lineStart = Some r"
      by (rule r)
  qed
  with j show False
    by blast
qed

lemma drawLine_hangs_NaN:
  assumes x: "ls Fx = Number (Num a)" and y: "ls Fy = Number NaN"
    and w: "ls Fw = Number (Num w)" "0 \<le> w"
  shows "drawLine img ls ls = None"
proof -
  define i where "i = real_of_int \<lfloor>a - w * 0.5\<rfloor>"
  define m where "m = real_of_int \<lfloor>a + w * 0.5\<rfloor>"
  have im: "i \<le> m"
  proof -
    have "a - w * 0.5 \<le> a + w * 0.5"
      using w(2) by simp
    then have "\<lfloor>a - w * 0.5\<rfloor> \<le> \<lfloor>a + w * 0.5\<rfloor>"
      by (rule floor_mono)
    then show ?thesis
      unfolding i_def m_def by (simp only: of_int_le_iff)
  qed
  have nan: "c + NaN = NaN" "NaN + c = NaN" "c * NaN = NaN" "NaN * c = NaN" "c - NaN = NaN"
      "NaN - c = NaN" for c :: jsnum
    by (cases c; simp add: minus_jsnum_def)+
  have inside: "snd (drawLinePixel img' (Num i) NaN ls ls False False)" for img'
    by (simp add: drawLinePixel_def projection_def coverage_def x y w(1) strict_eq_def
        clamp01_def clamp_def lerp_def sq_def nan Let_def split: prod.splits)
  have "scan img' (Num i) NaN (Num 1) ls ls False False = None" for img'
    by (rule scan_stuck) (simp_all add: inside)
  then have "columns img (Num i) (Num m) (Num 0) ls ls False False = None"
    using im by (subst columns.simps) (simp add: y nan clamp_def Let_def)
  then show ?thesis
    by (simp add: drawLine_def x y w(1) nan strict_eq_def Let_def i_def m_def)
qed

lemma drawLine_hangs_big:
  assumes x: "ls Fx = Number (Num (10 ^ 17))" and y: "ls Fy = Number (Num 0)"
    and w: "ls Fw = Number (Num 1)"
  shows "drawLine img ls ls = None"
proof -
  have f: "\<lfloor>(10 ^ 17 :: real) - 1 * (5 / 10)\<rfloor> = 10 ^ 17 - 1"
    "\<lfloor>(10 ^ 17 :: real) + 1 * (5 / 10)\<rfloor> = 10 ^ 17"
    by (simp_all add: floor_eq_iff)
  have stuck: "columns img' (Num (10 ^ 17)) (Num (10 ^ 17)) (Num 0) ls ls False False = None" for img'
  proof (rule columns_stuck)
    show "Num (10 ^ 17) \<le> Num (10 ^ 17)" by simp
    show "rounded (Num (10 ^ 17) + Num 1) = Num (10 ^ 17)" by (rule rounded_absorbs(2))
  qed
  have le: "Num (10 ^ 17 - 1) \<le> Num (10 ^ 17)"
    by simp
  have "columns img (Num (10 ^ 17 - 1)) (Num (10 ^ 17)) (Num 0) ls ls False False = None"
    by (subst columns.simps, simp only: le if_True Let_def rounded_absorbs(3) stuck)
       (simp split: option.splits)
  then show ?thesis
    by (simp add: drawLine_def x y w strict_eq_def Let_def f)
qed

section \<open>Evaluation without exceptions\<close>

lemma never_raises_new: "never_raises Stroke_new"
  by (simp add: never_raises_def)

lemma never_raises_slide: "never_raises this \<Longrightarrow> never_raises (slide this f)"
  by (simp add: never_raises_def slide_def evaluate_def)

lemma never_raises_parametric: "never_raises this \<Longrightarrow> never_raises (Stroke_parametric this f)"
  unfolding never_raises_def
proof
  fix t
  assume "\<forall>t. \<exists>p. evaluate this t = Inr p"
  then obtain p where "evaluate this t = Inr p" by blast
  then show "\<exists>p. evaluate (Stroke_parametric this f) t = Inr p"
    by (simp add: Stroke_parametric_def evaluate_def)
qed

lemma never_raises_fix: "never_raises this \<Longrightarrow> never_raises (Stroke_fix this point)"
  unfolding never_raises_def
proof
  fix t
  assume "\<forall>t. \<exists>p. evaluate this t = Inr p"
  then obtain p where "evaluate this t = Inr p" by blast
  then show "\<exists>p. evaluate (Stroke_fix this point) t = Inr p"
    by (simp add: Stroke_fix_def evaluate_def)
qed

lemma never_raises_matrix: "never_raises this \<Longrightarrow> never_raises (matrix this a b c d e f)"
  unfolding never_raises_def
proof
  fix t
  assume "\<forall>t. \<exists>p. evaluate this t = Inr p"
  then obtain p where "evaluate this t = Inr p" by blast
  then show "\<exists>p. evaluate (matrix this a b c d e f) t = Inr p"
    by (simp add: matrix_eval)
qed

lemma never_raises_ellipse:
  "never_raises this \<Longrightarrow> never_raises (ellipse this x y rx ry start ccw form)"
  by (cases form) (simp_all add: ellipse_def never_raises_slide never_raises_parametric)

lemma never_raises_bezier:
  assumes "points \<noteq> []" and "never_raises this"
  shows "\<exists>curve. Stroke_bezier this points = Inr curve \<and> never_raises curve"
proof -
  obtain p0 where "evaluate this (Num 0) = Inr p0"
    using assms(2) unfolding never_raises_def by blast
  from bezier_sample [OF assms(1) this]
  obtain s where s: "Stroke_bezier this points = Inr s"
    by blast
  have "\<exists>m. evaluate s t = Inr m" for t
  proof -
    obtain p where "evaluate this t = Inr p"
      using assms(2) unfolding never_raises_def by blast
    from bezier_sample [OF assms(1) this] s show ?thesis
      by auto
  qed
  then have "never_raises s"
    unfolding never_raises_def by blast
  with s show ?thesis by blast
qed

lemma sequence_NaN: "evaluate (sequence strokes) NaN = Inl TypeError"
  by (simp add: sequence_def evaluate_def clamp_def Let_def)

lemma sequence_returns:
  assumes "strokes \<noteq> []" and "list_all never_raises strokes" and "v \<noteq> NaN"
  shows "\<exists>p. evaluate (sequence strokes) v = Inr p"
proof -
  have el: "\<exists>p. evaluate (strokes ! i) u = Inr p" if "i < length strokes" for i u
    using assms(2) that unfolding list_all_length never_raises_def by blast
  have n: "0 < real (length strokes)" "1 \<le> real (length strokes)"
    using assms(1) by (cases strokes; simp)+
  have last: "array_get strokes (Num (real (length strokes) - 1))
      = Some (strokes ! (length strokes - 1))"
  proof -
    have "real (length strokes) - 1 = real_of_int (int (length strokes) - 1)"
      by simp
    moreover have "array_get strokes (Num (real_of_int (int (length strokes) - 1)))
        = Some (strokes ! nat (int (length strokes) - 1))"
      using assms(1) by (intro array_get_int) simp_all
    moreover have "nat (int (length strokes) - 1) = length strokes - 1"
      by simp
    ultimately show ?thesis
      by simp
  qed
  have first: "array_get strokes (Num 0) = Some (strokes ! 0)"
    using array_get_int [of 0 strokes] assms(1) by simp
  show ?thesis
  proof (cases v)
    case (Num t)
    let ?N = "int (length strokes)"
    let ?i = "max 0 (min \<lfloor>t * real_of_int ?N\<rfloor> (?N - 1))"
    have "nat ?i < length strokes"
      using sequence_index(2,3) [OF assms(1), of t] by linarith
    from el [OF this] show ?thesis
      unfolding Num sequence_eval [OF assms(1)] Let_def by blast
  next
    case PInf
    have "evaluate (sequence strokes) PInf
        = evaluate (strokes ! (length strokes - 1)) (PInf - Num (real (length strokes) - 1))"
      using n last by (simp add: sequence_def evaluate_def clamp_def Let_def)
    with el [of "length strokes - 1"] assms(1) show ?thesis
      unfolding PInf by simp
  next
    case NInf
    have "evaluate (sequence strokes) NInf = evaluate (strokes ! 0) (NInf - Num 0)"
      using n first by (simp add: sequence_def evaluate_def clamp_def Let_def)
    with el [of 0] assms(1) show ?thesis
      unfolding NInf by simp
  next
    case NaN
    with assms(3) show ?thesis by simp
  qed
qed

section \<open>Ellipses that can be drawn\<close>

lemma drawable_at_slide:
  "drawable_at dflt this (f t) \<Longrightarrow> drawable_at dflt (slide this f) t"
  by (simp add: drawable_at_def slide_def evaluate_def)

lemma ellipse_base_drawable:
  assumes "\<bar>cx\<bar> \<le> 2 ^ 50" and "\<bar>cy\<bar> \<le> 2 ^ 50" and "\<bar>rx\<bar> \<le> 2 ^ 50" and "\<bar>ry\<bar> \<le> 2 ^ 50"
    and "in_range (Number (dflt Fw))"
  shows "drawable_at dflt (Stroke_parametric Stroke_new (\<lambda>t.
            [Fx \<mapsto> Number (Num cx + Num rx * Math_cos ((if ccw then - t else t) * Num 2 * Math_PI)),
             Fy \<mapsto> Number (Num cy + Num ry * Math_sin ((if ccw then - t else t) * Num 2 * Math_PI))]))
          v"
proof (cases v)
  case (Num u)
  have b: "\<bar>c + r * v\<bar> \<le> 2 ^ 51" if "\<bar>c\<bar> \<le> 2 ^ 50" "\<bar>r\<bar> \<le> 2 ^ 50" "\<bar>v\<bar> \<le> 1" for c r v :: real
  proof -
    have "\<bar>r * v\<bar> \<le> \<bar>r\<bar> * 1"
      unfolding abs_mult using that(3) by (intro mult_left_mono) simp_all
    with that(1,2) have "\<bar>c\<bar> + \<bar>r * v\<bar> \<le> 2 ^ 50 + 2 ^ 50"
      by linarith
    then show ?thesis
      by (simp; linarith)
  qed
  define a where "a = (if ccw then - u else u) * 2 * pi"
  have e: "evaluate (Stroke_parametric Stroke_new (\<lambda>t.
            [Fx \<mapsto> Number (Num cx + Num rx * Math_cos ((if ccw then - t else t) * Num 2 * Math_PI)),
             Fy \<mapsto> Number (Num cy + Num ry * Math_sin ((if ccw then - t else t) * Num 2 * Math_PI))]))
          (Num u)
      = Inr [Fx \<mapsto> Number (Num (cx + rx * cos a)), Fy \<mapsto> Number (Num (cy + ry * sin a))]"
    by (simp add: Stroke_parametric_def Stroke_new_def evaluate_def Math_PI_def a_def)
  have "drawable_point (resolve dflt
      [Fx \<mapsto> Number (Num (cx + rx * cos a)), Fy \<mapsto> Number (Num (cy + ry * sin a))])"
    using assms(5) b [OF assms(1,3), of "cos a"] b [OF assms(2,4), of "sin a"]
    by (simp add: drawable_point_def resolve_def Object_assign_def prop_of_def fun_eq_iff)
  with e show ?thesis
    unfolding drawable_at_def Num by blast
next
  case PInf
  show ?thesis
    using pi_gt_zero
    by (simp add: PInf drawable_at_def drawable_point_def Stroke_parametric_def Stroke_new_def
        evaluate_def Math_PI_def resolve_def Object_assign_def prop_of_def)
next
  case NInf
  show ?thesis
    using pi_gt_zero
    by (simp add: NInf drawable_at_def drawable_point_def Stroke_parametric_def Stroke_new_def
        evaluate_def Math_PI_def resolve_def Object_assign_def prop_of_def)
next
  case NaN
  show ?thesis
    by (simp add: NaN drawable_at_def drawable_point_def Stroke_parametric_def Stroke_new_def
        evaluate_def Math_PI_def resolve_def Object_assign_def prop_of_def)
qed

lemma ellipse_drawable_at:
  assumes "\<bar>cx\<bar> \<le> 2 ^ 50" and "\<bar>cy\<bar> \<le> 2 ^ 50" and "\<bar>rx\<bar> \<le> 2 ^ 50" and "\<bar>ry\<bar> \<le> 2 ^ 50"
    and "in_range (Number (dflt Fw))"
  shows "drawable_at dflt (ellipse Stroke_new (Num cx) (Num cy) (Num rx) (Num ry) (Num start) ccw form) v"
proof -
  note base = ellipse_base_drawable [where dflt = dflt and ccw = ccw, OF assms]
  show ?thesis
    by (cases form; simp only: ellipse_def Let_def ellipse_form.case)
       (intro drawable_at_slide base)+
qed

lemma ellipse_drawable:
  assumes "\<bar>cx\<bar> \<le> 2 ^ 50" and "\<bar>cy\<bar> \<le> 2 ^ 50" and "\<bar>rx\<bar> \<le> 2 ^ 50" and "\<bar>ry\<bar> \<le> 2 ^ 50"
    and "in_range (Number (dflt Fw))"
  shows "drawable dflt (ellipse Stroke_new (Num cx) (Num cy) (Num rx) (Num ry) (Num start) ccw form)"
    and "drawable dflt
      (cut (ellipse Stroke_new (Num cx) (Num cy) (Num rx) (Num ry) (Num start) ccw form) t0 t1)"
proof -
  note at = ellipse_drawable_at [where dflt = dflt, OF assms]
  show "drawable dflt (ellipse Stroke_new (Num cx) (Num cy) (Num rx) (Num ry) (Num start) ccw form)"
    unfolding drawable_def by (intro allI impI at)
  show "drawable dflt
      (cut (ellipse Stroke_new (Num cx) (Num cy) (Num rx) (Num ry) (Num start) ccw form) t0 t1)"
    unfolding drawable_def cut_def by (intro allI impI drawable_at_slide at)
qed

lemma never_raises_cut: "never_raises this \<Longrightarrow> never_raises (cut this t0 t1)"
  unfolding cut_def by (rule never_raises_slide)

lemma never_raises_affine:
  assumes "never_raises this"
  shows "never_raises (translate this x y)" and "never_raises (scale this sx sy x y)"
    and "never_raises (Stroke_rotate this angle x y)"
  unfolding translate_def scale_def Stroke_rotate_def
  by (rule never_raises_matrix [OF assms])+

section \<open>Evaluation at the real numbers\<close>

lemma returns_slide:
  assumes "returns_on_reals this" and "\<And>t. \<exists>u. f (Num t) = Num u"
  shows "returns_on_reals (slide this f)"
  unfolding returns_on_reals_def
proof
  fix t
  obtain u where "f (Num t) = Num u"
    using assms(2) by blast
  moreover obtain p where "evaluate this (Num u) = Inr p"
    using assms(1) unfolding returns_on_reals_def by blast
  ultimately show "\<exists>p. evaluate (slide this f) (Num t) = Inr p"
    by (simp add: slide_def evaluate_def)
qed

lemma returns_parametric: "returns_on_reals this \<Longrightarrow> returns_on_reals (Stroke_parametric this f)"
  unfolding returns_on_reals_def
proof
  fix t
  assume "\<forall>t. \<exists>p. evaluate this (Num t) = Inr p"
  then obtain p where "evaluate this (Num t) = Inr p" by blast
  then show "\<exists>p. evaluate (Stroke_parametric this f) (Num t) = Inr p"
    by (simp add: Stroke_parametric_def evaluate_def)
qed

lemma returns_fix: "returns_on_reals this \<Longrightarrow> returns_on_reals (Stroke_fix this point)"
  unfolding returns_on_reals_def
proof
  fix t
  assume "\<forall>t. \<exists>p. evaluate this (Num t) = Inr p"
  then obtain p where "evaluate this (Num t) = Inr p" by blast
  then show "\<exists>p. evaluate (Stroke_fix this point) (Num t) = Inr p"
    by (simp add: Stroke_fix_def evaluate_def)
qed

lemma returns_matrix: "returns_on_reals this \<Longrightarrow> returns_on_reals (matrix this a b c d e f)"
  unfolding returns_on_reals_def
proof
  fix t
  assume "\<forall>t. \<exists>p. evaluate this (Num t) = Inr p"
  then obtain p where "evaluate this (Num t) = Inr p" by blast
  then show "\<exists>p. evaluate (matrix this a b c d e f) (Num t) = Inr p"
    by (simp add: matrix_eval)
qed

lemma returns_affine:
  assumes "returns_on_reals this"
  shows "returns_on_reals (translate this x y)" and "returns_on_reals (scale this sx sy x y)"
    and "returns_on_reals (Stroke_rotate this angle x y)"
  unfolding translate_def scale_def Stroke_rotate_def
  by (rule returns_matrix [OF assms])+

lemma returns_cut: "returns_on_reals this \<Longrightarrow> returns_on_reals (cut this (Num t0) (Num t1))"
  unfolding cut_def by (rule returns_slide) simp_all

lemma returns_ellipse:
  assumes "returns_on_reals this"
    and "form = Polar \<longrightarrow> ry \<noteq> 0" and "form = Tangent \<longrightarrow> rx \<noteq> 0"
  shows "returns_on_reals (ellipse this (Num x) (Num y) (Num rx) (Num ry) (Num start) ccw form)"
proof -
  note base = returns_parametric [OF assms(1)]
  have shift: "returns_on_reals (slide S (\<lambda>t. t + Num start / (Num 2 * Math_PI)))"
    if "returns_on_reals S" for S
    using that by (rule returns_slide) (simp add: Math_PI_def)
  have inner: "returns_on_reals (slide S (slideEllipse (Num a / Num b)))"
    if "returns_on_reals S" "b \<noteq> 0" for S a b
    using that(1) by (rule returns_slide) (simp add: that(2) slideEllipse_Num)
  show ?thesis
  proof (cases form)
    case Parametric
    show ?thesis
      unfolding Parametric ellipse_def Let_def ellipse_form.case
      by (rule shift) (rule base)
  next
    case Polar
    with assms(2) have "ry \<noteq> 0" by simp
    show ?thesis
      unfolding Polar ellipse_def Let_def ellipse_form.case
      by (rule shift, rule inner [OF _ \<open>ry \<noteq> 0\<close>]) (rule base)
  next
    case Tangent
    with assms(3) have "rx \<noteq> 0" by simp
    show ?thesis
      unfolding Tangent ellipse_def Let_def ellipse_form.case
      by (rule shift, rule inner [OF _ \<open>rx \<noteq> 0\<close>]) (rule base)
  qed
qed

lemma returns_bezier:
  assumes "points \<noteq> []" and "returns_on_reals this"
  shows "\<exists>curve. Stroke_bezier this points = Inr curve \<and> returns_on_reals curve"
proof -
  obtain p0 where "evaluate this (Num 0) = Inr p0"
    using assms(2) unfolding returns_on_reals_def by blast
  from bezier_sample [OF assms(1) this]
  obtain s where s: "Stroke_bezier this points = Inr s"
    by blast
  have "\<exists>m. evaluate s (Num t) = Inr m" for t
  proof -
    obtain p where "evaluate this (Num t) = Inr p"
      using assms(2) unfolding returns_on_reals_def by blast
    from bezier_sample [OF assms(1) this] s show ?thesis
      by auto
  qed
  then have "returns_on_reals s"
    unfolding returns_on_reals_def by blast
  with s show ?thesis by blast
qed

lemma returns_sequence:
  assumes "strokes \<noteq> []" and "list_all returns_on_reals strokes"
  shows "returns_on_reals (sequence strokes)"
  unfolding returns_on_reals_def
proof
  fix t
  let ?N = "int (length strokes)"
  let ?i = "max 0 (min \<lfloor>t * real_of_int ?N\<rfloor> (?N - 1))"
  have "nat ?i < length strokes"
    using sequence_index(2,3) [OF assms(1), of t] by linarith
  then have "\<exists>p. evaluate (strokes ! nat ?i) (Num u) = Inr p" for u
    using assms(2) unfolding list_all_length returns_on_reals_def by blast
  then show "\<exists>p. evaluate (sequence strokes) (Num t) = Inr p"
    unfolding sequence_eval [OF assms(1)] Let_def by blast
qed

section \<open>Drawings that throw or never end\<close>

lemma draw_single:
  "draw (ctx\<lparr>ctx_strokes := [stroke]\<rparr>) img =
     (case draw_stroke (ctx\<lparr>ctx_strokes := [stroke]\<rparr>) img stroke of
        None \<Rightarrow> None
      | Some (Inl e) \<Rightarrow> Some (Inl e)
      | Some (Inr img') \<Rightarrow> Some (Inr img'))"
  by (simp add: draw_def split: option.splits sum.splits)

lemma polar_zero_radius:
  "evaluate (ellipse this (Num 0) (Num 0) (Num 1) (Num 0) (Num 0) False Polar) (Num 0)
     = evaluate (Stroke_parametric this (\<lambda>t.
          [Fx \<mapsto> Number (Num 0 + Num 1 * Math_cos (t * Num 2 * Math_PI)),
           Fy \<mapsto> Number (Num 0 + Num 0 * Math_sin (t * Num 2 * Math_PI))])) NaN"
proof -
  have r: "Num 1 / Num 0 = PInf" and z: "Num 0 + Num 0 / (Num 2 * Math_PI) = Num 0"
    by (simp_all add: Math_PI_def)
  have n: "slideEllipse PInf (Num 0) = NaN"
    by (simp add: slideEllipse_def slideEllipse_t_Num Let_def Math_PI_def tan_double_def)
  show ?thesis
    unfolding ellipse_def Let_def ellipse_form.case slide_def evaluate_create if_False
    by (simp only: evaluate_def Stroke.sel r z n)
qed

lemma draw_throws:
  "draw (ctx\<lparr>ctx_strokes :=
      [ellipse (sequence [Stroke_new]) (Num 0) (Num 0) (Num 1) (Num 0) (Num 0) False Polar]\<rparr>) img
     = Some (Inl TypeError)"
proof -
  have "evaluate (ellipse (sequence [Stroke_new]) (Num 0) (Num 0) (Num 1) (Num 0) (Num 0) False Polar)
      (Num 0) = Inl TypeError"
    unfolding polar_zero_radius
    by (simp add: Stroke_parametric_def evaluate_def sequence_def clamp_def Let_def)
  then show ?thesis
    unfolding draw_single by (simp add: draw_stroke_def)
qed

lemma draw_hangs_NaN:
  assumes "ctx_default ctx = default_point"
  shows "draw (ctx\<lparr>ctx_strokes :=
      [Stroke_fix (ellipse Stroke_new (Num 0) (Num 0) (Num 1) (Num 0) (Num 0) False Polar)
         [Fx \<mapsto> Number (Num 5)]]\<rparr>) img = None"
proof -
  let ?s = "Stroke_fix (ellipse Stroke_new (Num 0) (Num 0) (Num 1) (Num 0) (Num 0) False Polar)
         [Fx \<mapsto> Number (Num 5)]"
  have e: "evaluate ?s (Num 0) = Inr [Fx \<mapsto> Number (Num 5), Fy \<mapsto> Number NaN]"
    by (simp add: Stroke_fix_def polar_zero_radius [unfolded evaluate_def] evaluate_def
        Stroke_parametric_def Stroke_new_def Object_assign_def fun_eq_iff)
  let ?p = "resolve default_point [Fx \<mapsto> Number (Num 5), Fy \<mapsto> Number NaN]"
  have "drawLine img ?p ?p = None"
    by (rule drawLine_hangs_NaN [where a = 5 and w = 1])
       (simp_all add: resolve_def Object_assign_def default_point_def)
  then show ?thesis
    unfolding draw_single by (simp add: draw_stroke_def e assms Let_def)
qed

lemma draw_hangs_big:
  assumes "ctx_default ctx = default_point"
  shows "draw (ctx\<lparr>ctx_strokes := [Stroke_fix Stroke_new [Fx \<mapsto> Number (Num (10 ^ 17))]]\<rparr>) img
     = None"
proof -
  let ?p = "resolve default_point [Fx \<mapsto> Number (Num (10 ^ 17))]"
  have "drawLine img ?p ?p = None"
    by (rule drawLine_hangs_big) (simp_all add: resolve_def Object_assign_def default_point_def)
  then show ?thesis
    unfolding draw_single by (simp add: draw_stroke_def assms Let_def)
qed

lemma draw_hangs_segmentation:
  "draw (ctx\<lparr>ctx_strokes := [Stroke_new], ctx_segmentation := Num (2 ^ 53)\<rparr>) img = None"
proof -
  let ?c = "ctx\<lparr>ctx_strokes := [Stroke_new], ctx_segmentation := Num (2 ^ 53)\<rparr>"
  have s: "segments img' Stroke_new (ctx_default ctx) (Num (2 ^ 53)) (Num 1) ls = None" for img' ls
    using segments_stuck [OF never_raises_new, of 1 img' "ctx_default ctx" ls] by simp
  have "draw_stroke ?c img Stroke_new = None"
  proof (cases "drawLine img (resolve (ctx_default ctx) Map.empty) (resolve (ctx_default ctx) Map.empty)")
    case None
    then show ?thesis
      by (simp add: draw_stroke_def)
  next
    case (Some img')
    then show ?thesis
      using s [of img' "resolve (ctx_default ctx) Map.empty"] by (simp add: draw_stroke_def)
  qed
  then have "draw_strokes ?c img [Stroke_new] = None"
    by simp
  then show ?thesis
    unfolding draw_def by simp
qed

lemma projection_forced:
  "strict_eq (ToNumber (end Fx) - ToNumber (start Fx)) (Num 0) \<Longrightarrow>
   projection start end px py = Num 0"
  by (simp add: projection_def Let_def)

lemma projection_coincident:
  "ToNumber (p Fx) = Num a \<Longrightarrow> projection p p px py = Num 0"
  by (simp add: projection_def Let_def strict_eq_def)

lemma returns_new: "returns_on_reals Stroke_new"
  by (simp add: returns_on_reals_def)

section \<open>Exceptions and loops on numeric input\<close>




end
